theory Spec2Isabelle
  imports Main
begin

section \<open>Host functions of the JavaScript runtime\<close>

text \<open>
  Strings are modelled as \<^typ>\<open>string\<close>. The wallet service compares strings with
  \<open>String.prototype.localeCompare\<close>, whose result is the collation order of the host's
  locale. It is a function of the runtime, not of the repository, so every definition
  that calls it takes the comparator as its first argument \<open>lc\<close>: negative, zero or
  positive as the left string sorts before, with or after the right one.
\<close>

type_synonym comparator = "string \<Rightarrow> string \<Rightarrow> int"

fun lexCompare :: "nat list \<Rightarrow> nat list \<Rightarrow> int" where
  "lexCompare [] [] = 0"
| "lexCompare [] (b # bs) = -1"
| "lexCompare (a # as) [] = 1"
| "lexCompare (a # as) (b # bs) =
     (if a < b then -1 else if b < a then 1 else lexCompare as bs)"

text \<open>Code-point order: the numeric order of the characters, left to right.\<close>

definition codePointCompare :: comparator where
  "codePointCompare l r = lexCompare (map of_char l) (map of_char r)"

text \<open>
  The collation of the Unicode root locale (the order ICU gives Node.js by default) on
  strings of ASCII letters, digits and hyphens: strings are compared first by their
  letters without regard to case (hyphen before digits before letters), and only when
  that is a tie by case, lower case first. It serves as a concrete host comparator.
\<close>

definition primaryWeight :: "char \<Rightarrow> nat" where
  "primaryWeight c = (let n = of_char c in if 65 \<le> n \<and> n \<le> 90 then n + 32 else n)"

definition caseWeight :: "char \<Rightarrow> nat" where
  "caseWeight c = (let n = of_char c :: nat in if 65 \<le> n \<and> n \<le> 90 then 1 else 0)"

definition localeCompareAscii :: comparator where
  "localeCompareAscii l r =
     (let p = lexCompare (map primaryWeight l) (map primaryWeight r)
      in if p \<noteq> 0 then p else lexCompare (map caseWeight l) (map caseWeight r))"

text \<open>
  The root collation gives no weight at all to some code points and skips them when it
  compares; the soft hyphen U+00AD is one. The same comparator on strings that may
  hold soft hyphens besides:
\<close>

definition ignorable :: "char \<Rightarrow> bool" where
  "ignorable c \<longleftrightarrow> of_char c = (173 :: nat)"

definition localeCompareSoftHyphen :: comparator where
  "localeCompareSoftHyphen l r =
     localeCompareAscii (filter (\<lambda>c. \<not> ignorable c) l) (filter (\<lambda>c. \<not> ignorable c) r)"

text \<open>
  \<open>Array.prototype.sort\<close> with a comparator is a stable sort: elements the comparator
  calls equal keep their order. Insertion from the right end gives exactly that.
\<close>

fun insertBy :: "('a \<Rightarrow> 'a \<Rightarrow> int) \<Rightarrow> 'a \<Rightarrow> 'a list \<Rightarrow> 'a list" where
  "insertBy cmp x [] = [x]"
| "insertBy cmp x (y # ys) =
     (if cmp x y \<le> 0 then x # y # ys else y # insertBy cmp x ys)"

definition sortBy :: "('a \<Rightarrow> 'a \<Rightarrow> int) \<Rightarrow> 'a list \<Rightarrow> 'a list" where
  "sortBy cmp xs = foldr (insertBy cmp) xs []"

text \<open>
  \<open>new Set(iterable)\<close> adds the elements in order, and adding one that is present does
  nothing; spreading the set lists the members in insertion order.
\<close>

definition setAdd :: "'a list \<Rightarrow> 'a \<Rightarrow> 'a list" where
  "setAdd s x = (if x \<in> set s then s else s @ [x])"

definition newSet :: "'a list \<Rightarrow> 'a list" where
  "newSet xs = foldl setAdd [] xs"

text \<open>
  \<open>String.prototype.toUpperCase\<close> on ASCII text: the letters a to z are replaced by
  A to Z and every other character is kept.
\<close>

definition upperChar :: "char \<Rightarrow> char" where
  "upperChar c =
     (let n = of_char c :: nat in if 97 \<le> n \<and> n \<le> 122 then char_of (n - 32) else c)"

definition toUpperCase :: "string \<Rightarrow> string" where
  "toUpperCase s = map upperChar s"

text \<open>\<open>BigInt.prototype.toString\<close>: the decimal digits, with a minus sign when negative.\<close>

definition digitChar :: "nat \<Rightarrow> char" where
  "digitChar d = char_of (48 + d)"

fun natToString :: "nat \<Rightarrow> string" where
  "natToString n =
     (if n < 10 then [digitChar n] else natToString (n div 10) @ [digitChar (n mod 10)])"

definition bigintToString :: "int \<Rightarrow> string" where
  "bigintToString i = (if i < 0 then CHR ''-'' # natToString (nat (- i)) else natToString (nat i))"

section \<open>Concurrency controls (src/services/concurrency-controls.ts)\<close>

definition sortUniqueWalletIds :: "comparator \<Rightarrow> string list \<Rightarrow> string list" where
  "sortUniqueWalletIds lc walletIds = sortBy (\<lambda>left right. lc left right) (newSet walletIds)"

definition toWalletLockKeys :: "comparator \<Rightarrow> string list \<Rightarrow> string list" where
  "toWalletLockKeys lc walletIds =
     map (\<lambda>walletId. ''lock:wallet:'' @ walletId) (sortUniqueWalletIds lc walletIds)"


section \<open>Data model (prisma migrations)\<close>

datatype WalletOwnerType = USER | SYSTEM

datatype TransactionType = TOPUP | BONUS | SPEND

datatype TransactionStatus = PROCESSING | POSTED | FAILED

datatype EntryType = DEBIT | CREDIT

record User =
  u_id :: string
  u_email :: string

record AssetType =
  a_id :: string
  a_code :: string
  a_name :: string

record Wallet =
  w_id :: string
  w_userId :: "string option"
  w_ownerType :: WalletOwnerType
  w_systemCode :: "string option"
  w_assetTypeId :: string
  w_version :: int

text \<open>
  A ledger entry as the service writes it; the row id and \<open>created_at\<close> are filled in by
  the database and read by none of the code below.
\<close>

record LedgerEntry =
  le_transactionId :: string
  le_walletId :: string
  le_assetTypeId :: string
  le_entryType :: EntryType
  le_amount :: int

record WalletMutationSuccessPayload =
  sp_transactionId :: string
  sp_idempotencyKey :: string
  sp_operation :: string
  sp_userId :: string
  sp_assetCode :: string
  sp_amount :: string
  sp_balance :: string
  sp_fromWalletId :: string
  sp_toWalletId :: string
  sp_createdAt :: string

text \<open>\<open>ErrorPayload\<close> is \<open>{error: {code, message}}\<close>.\<close>

datatype WalletMutationPayload =
  SuccessPayload WalletMutationSuccessPayload
| ErrorPayload string string

text \<open>
  A transaction row. \<open>t_createdAt\<close> holds the timestamp in the ISO form the success body
  prints; \<open>updated_at\<close> is kept by a database trigger and read by none of the code below.
\<close>

record Transaction =
  t_id :: string
  t_idempotencyKey :: string
  t_requestHash :: string
  t_type :: TransactionType
  t_status :: TransactionStatus
  t_amount :: int
  t_assetTypeId :: string
  t_sourceWalletId :: string
  t_destinationWalletId :: string
  t_responseCode :: "int option"
  t_responseBody :: "WalletMutationPayload option"
  t_errorCode :: "string option"
  t_createdAt :: string

record Database =
  users :: "User list"
  assetTypes :: "AssetType list"
  wallets :: "Wallet list"
  transactions :: "Transaction list"
  ledgerEntries :: "LedgerEntry list"

section \<open>Errors and requests\<close>

text \<open>
  \<open>AppError(statusCode, code, message)\<close> is the service's own error. The database client
  raises \<open>PrismaClientKnownRequestError\<close> with a code of its own (P2002 is a unique
  violation) and \<open>PrismaClientUnknownRequestError\<close> for an error of the database it has
  no code for, here with the SQLSTATE; any other failure of a statement is \<open>OtherError\<close>.
\<close>

datatype error =
  AppError int string string
| PrismaClientKnownRequestError string
| PrismaClientUnknownRequestError string
| OtherError string

record WalletMutationRequest =
  rq_userId :: string
  rq_assetCode :: string
  rq_amount :: int
  rq_idempotencyKey :: string
  rq_requestFingerprint :: string

record WalletMutationResult =
  statusCode :: int
  body :: WalletMutationPayload
  replayed :: bool

record CachedIdempotencyPayload =
  c_requestFingerprint :: string
  c_statusCode :: int
  c_body :: WalletMutationPayload

record WalletExecutionContext =
  ctx_assetTypeId :: string
  ctx_assetCode :: string
  ctx_userWalletId :: string
  ctx_treasuryWalletId :: string

text \<open>The three lock settings of src/config/env.ts, each parsed as a positive integer.\<close>

record Env =
  distributedLockTtlMs :: nat
  distributedLockRetryCount :: nat
  distributedLockRetryDelayMs :: nat


section \<open>Distributed lock (DistributedLockService)\<close>

text \<open>
  The service talks to a \<open>LockClient\<close> with two operations. \<open>setNxPx s key token ttl\<close> is
  \<open>set(key, token, "NX", "PX", ttl)\<close> in client state \<open>s\<close>: it returns whether the reply
  was \<open>"OK"\<close>, and the new state. \<open>evalRelease s key token\<close> is the \<open>eval\<close> of the release
  script on \<open>key\<close> and \<open>token\<close>; its reply is ignored and its exceptions are caught and
  logged by \<open>releaseLocks\<close>, so only the new state is kept.
\<close>

record 's LockClient =
  setNxPx :: "'s \<Rightarrow> string \<Rightarrow> string \<Rightarrow> nat \<Rightarrow> bool \<times> 's"
  evalRelease :: "'s \<Rightarrow> string \<Rightarrow> string \<Rightarrow> 's"

text \<open>What the service does to the outside, in order: client calls and sleeps.\<close>

datatype LockEvent =
  SetNxPx string string nat bool
| EvalRelease string string
| Sleep nat

record DistributedLockHandle =
  h_acquiredKeys :: "string list"
  h_token :: string

text \<open>
  The inner loop of an attempt: the keys in order, stopping at the first reply that is
  not \<open>"OK"\<close>. It returns \<open>locked\<close>, \<open>acquiredKeys\<close>, the client state and the calls made.
\<close>

fun tryLockKeys ::
  "'s LockClient \<Rightarrow> Env \<Rightarrow> string \<Rightarrow> string list \<Rightarrow> string list \<Rightarrow> 's
     \<Rightarrow> bool \<times> string list \<times> 's \<times> LockEvent list" where
  "tryLockKeys client env token [] acquiredKeys s = (True, acquiredKeys, s, [])"
| "tryLockKeys client env token (lockKey # rest) acquiredKeys s =
     (let (ok, s') = setNxPx client s lockKey token (distributedLockTtlMs env)
      in if \<not> ok
         then (False, acquiredKeys, s',
               [SetNxPx lockKey token (distributedLockTtlMs env) False])
         else (let (locked, acquired, s'', events) =
                     tryLockKeys client env token rest (acquiredKeys @ [lockKey]) s'
               in (locked, acquired, s'',
                   SetNxPx lockKey token (distributedLockTtlMs env) True # events)))"

definition releaseLocks ::
  "'s LockClient \<Rightarrow> string list \<Rightarrow> string \<Rightarrow> 's \<Rightarrow> 's \<times> LockEvent list" where
  "releaseLocks client lockKeys token s =
     (if length lockKeys = 0 then (s, [])
      else (fold (\<lambda>lockKey st. evalRelease client st lockKey token) lockKeys s,
            map (\<lambda>lockKey. EvalRelease lockKey token) lockKeys))"

text \<open>
  The attempt loop, from \<open>attempt\<close> on. The result is the handle or the error, the client
  state, and the events of each attempt made, one list per attempt.
\<close>

function acquireAttempts ::
  "'s LockClient \<Rightarrow> Env \<Rightarrow> string \<Rightarrow> string list \<Rightarrow> nat \<Rightarrow> 's
     \<Rightarrow> (error + DistributedLockHandle) \<times> 's \<times> LockEvent list list" where
  "acquireAttempts client env token lockKeys attempt s =
     (if attempt \<le> distributedLockRetryCount env
      then (let (locked, acquiredKeys, s1, events) =
                  tryLockKeys client env token lockKeys [] s
            in if locked
               then (Inr \<lparr>h_acquiredKeys = acquiredKeys, h_token = token\<rparr>, s1, [events])
               else (let (s2, released) = releaseLocks client acquiredKeys token s1;
                         slept = (if attempt < distributedLockRetryCount env
                                  then [Sleep (distributedLockRetryDelayMs env * attempt)]
                                  else []);
                         (outcome, s3, later) =
                           acquireAttempts client env token lockKeys (attempt + 1) s2
                     in (outcome, s3, (events @ released @ slept) # later)))
      else (Inl (AppError 423 ''DISTRIBUTED_LOCK_NOT_ACQUIRED''
                   ''Could not acquire wallet lock. Please retry.''), s, []))"
  by pat_completeness auto
termination
  by (relation "measure (\<lambda>(client, env, token, lockKeys, attempt, s).
        Suc (distributedLockRetryCount env) - attempt)") auto

definition acquireWalletLocks ::
  "'s LockClient \<Rightarrow> Env \<Rightarrow> comparator \<Rightarrow> string list \<Rightarrow> string \<Rightarrow> 's
     \<Rightarrow> (error + DistributedLockHandle) \<times> 's \<times> LockEvent list list" where
  "acquireWalletLocks client env lc walletIds token s =
     (let lockKeys = toWalletLockKeys lc walletIds
      in if length lockKeys = 0
         then (Inl (AppError 400 ''LOCK_KEYS_MISSING'' ''No lock keys were provided''), s, [])
         else acquireAttempts client env token lockKeys 1 s)"

definition release :: "'s LockClient \<Rightarrow> DistributedLockHandle \<Rightarrow> 's \<Rightarrow> 's" where
  "release client handle s = fst (releaseLocks client (h_acquiredKeys handle) (h_token handle) s)"

text \<open>
  The client the service is built with holds one token per key. \<open>SET key token NX PX ttl\<close>
  stores the token only where the key is absent, and the release script deletes the key
  only where it holds the caller's token; so does the in-memory client of
  tests/distributed-lock.test.ts. The expiry of a key after its time to live is not
  part of this state.
\<close>

definition redisLockClient :: "(string \<rightharpoonup> string) LockClient" where
  "redisLockClient =
     \<lparr> setNxPx = (\<lambda>store key value ttl.
          (case store key of
             Some current \<Rightarrow> (False, store)
           | None \<Rightarrow> (True, store(key \<mapsto> value)))),
       evalRelease = (\<lambda>store key token.
          (if store key = Some token then store(key := None) else store)) \<rparr>"



definition LOCK_KEYS_MISSING :: error where
  "LOCK_KEYS_MISSING = AppError 400 ''LOCK_KEYS_MISSING'' ''No lock keys were provided''"


section \<open>Idempotency cache (IdempotencyCache)\<close>

definition keyFor :: "string \<Rightarrow> string" where
  "keyFor idempotencyKey = ''idem:response:'' @ idempotencyKey"

text \<open>
  The state outside the process: the database, the cached responses by cache key and the
  lock tokens by lock key.
\<close>

record World =
  database :: Database
  cache :: "string \<rightharpoonup> CachedIdempotencyPayload"
  locks :: "string \<rightharpoonup> string"

definition idempotencyCache_get :: "World \<Rightarrow> string \<Rightarrow> CachedIdempotencyPayload option" where
  "idempotencyCache_get world idempotencyKey = cache world (keyFor idempotencyKey)"

definition idempotencyCache_set :: "World \<Rightarrow> string \<Rightarrow> CachedIdempotencyPayload \<Rightarrow> World" where
  "idempotencyCache_set world idempotencyKey payload =
     world\<lparr>cache := (cache world)(keyFor idempotencyKey \<mapsto> payload)\<rparr>"

section \<open>Wallet service (src/services/wallet-service.ts)\<close>

definition TREASURY_SYSTEM_CODE :: string where
  "TREASURY_SYSTEM_CODE = ''TREASURY''"

definition operationLabel :: "TransactionType \<Rightarrow> string" where
  "operationLabel type =
     (case type of TOPUP \<Rightarrow> ''topup'' | BONUS \<Rightarrow> ''bonus'' | SPEND \<Rightarrow> ''spend'')"

subsection \<open>resolveContext\<close>

text \<open>
  The three lookups of \<open>resolveContext\<close>. The ids are uuids, held as text in the
  canonical lower-case form in which the database prints them, so that equal uuids are
  equal strings.
\<close>

definition resolveContext :: "Database \<Rightarrow> string \<Rightarrow> string \<Rightarrow> error + WalletExecutionContext" where
  "resolveContext db userId assetCode =
     (let normalizedCode = toUpperCase assetCode
      in case find (\<lambda>a. a_code a = normalizedCode) (assetTypes db) of
           None \<Rightarrow> Inl (AppError 404 ''ASSET_TYPE_NOT_FOUND'' (''Unknown asset code: '' @ assetCode))
         | Some assetType \<Rightarrow>
             (case find (\<lambda>w. w_ownerType w = USER \<and> w_userId w = Some userId
                               \<and> w_assetTypeId w = a_id assetType) (wallets db) of
                None \<Rightarrow> Inl (AppError 404 ''USER_WALLET_NOT_FOUND''
                              (''Wallet for user '' @ userId @ '' and asset ''
                                 @ a_code assetType @ '' does not exist''))
              | Some userWallet \<Rightarrow>
                  (case find (\<lambda>w. w_ownerType w = SYSTEM
                                    \<and> w_systemCode w = Some TREASURY_SYSTEM_CODE
                                    \<and> w_assetTypeId w = a_id assetType) (wallets db) of
                     None \<Rightarrow> Inl (AppError 500 ''TREASURY_WALLET_NOT_CONFIGURED''
                                   (''Treasury wallet missing for asset '' @ a_code assetType))
                   | Some treasuryWallet \<Rightarrow>
                       Inr \<lparr> ctx_assetTypeId = a_id assetType,
                             ctx_assetCode = a_code assetType,
                             ctx_userWalletId = w_id userWallet,
                             ctx_treasuryWalletId = w_id treasuryWallet \<rparr>)))"

text \<open>The choice of the two sides in \<open>executeMutation\<close>.\<close>

definition sourceWalletIdOf :: "TransactionType \<Rightarrow> WalletExecutionContext \<Rightarrow> string" where
  "sourceWalletIdOf type context =
     (if type = SPEND then ctx_userWalletId context else ctx_treasuryWalletId context)"

definition destinationWalletIdOf :: "TransactionType \<Rightarrow> WalletExecutionContext \<Rightarrow> string" where
  "destinationWalletIdOf type context =
     (if type = SPEND then ctx_treasuryWalletId context else ctx_userWalletId context)"

subsection \<open>getWalletBalance\<close>

definition signedAmount :: "LedgerEntry \<Rightarrow> int" where
  "signedAmount le = (if le_entryType le = CREDIT then le_amount le else - le_amount le)"

text \<open>\<open>COALESCE(SUM(...), 0)\<close> over the entries of the wallet and asset.\<close>

definition getWalletBalance :: "Database \<Rightarrow> string \<Rightarrow> string \<Rightarrow> int" where
  "getWalletBalance db walletId assetTypeId =
     sum_list (map signedAmount
       (filter (\<lambda>le. le_walletId le = walletId \<and> le_assetTypeId le = assetTypeId)
          (ledgerEntries db)))"

subsection \<open>The transaction client\<close>

text \<open>
  The \<open>tx\<close> that \<open>prisma.$transaction\<close> hands to its callback: the database as the
  transaction sees it, and whether a statement of the transaction has failed. The
  database is Postgres, which aborts a transaction at the first statement that fails
  and answers every later statement of that transaction with SQLSTATE 25P02 (current
  transaction is aborted, commands ignored until end of transaction block) until it is
  rolled back. The client has no savepoint around a statement.
\<close>

record TransactionClient =
  tx_database :: Database
  tx_aborted :: bool

definition inFailedSqlTransaction :: error where
  "inFailedSqlTransaction = PrismaClientUnknownRequestError ''25P02''"

text \<open>The largest value of a \<open>BIGINT\<close> column.\<close>

definition BIGINT_MAX :: int where
  "BIGINT_MAX = 9223372036854775807"

subsection \<open>createOrReplayTransaction\<close>

text \<open>
  \<open>tx.transaction.create\<close>. The new row gets its id \<open>newId\<close> and timestamp \<open>now\<close> from the
  database. An amount outside the 64 bits of the \<open>BIGINT\<close> column cannot be stored:
  the statement fails, with an error other than P2002. The check
  \<open>transactions_amount_positive_chk\<close> rejects a row whose amount is not positive, and
  the primary key and the unique index on \<open>idempotency_key\<close> answer a duplicate with a
  unique violation, P2002. A statement that fails leaves the transaction aborted.
\<close>

definition transaction_create ::
  "TransactionClient \<Rightarrow> Transaction \<Rightarrow> (error + Transaction) \<times> TransactionClient" where
  "transaction_create tx row =
     (if tx_aborted tx then (Inl inFailedSqlTransaction, tx)
      else if t_amount row < - BIGINT_MAX - 1 \<or> BIGINT_MAX < t_amount row
      then (Inl (OtherError ''value out of range for type bigint''),
            tx\<lparr>tx_aborted := True\<rparr>)
      else if t_amount row \<le> 0
      then (Inl (OtherError ''transactions_amount_positive_chk''), tx\<lparr>tx_aborted := True\<rparr>)
      else if \<exists>t \<in> set (transactions (tx_database tx)).
                t_id t = t_id row \<or> t_idempotencyKey t = t_idempotencyKey row
      then (Inl (PrismaClientKnownRequestError ''P2002''), tx\<lparr>tx_aborted := True\<rparr>)
      else (Inr row,
            tx\<lparr>tx_database := (tx_database tx)
                  \<lparr>transactions := transactions (tx_database tx) @ [row]\<rparr>\<rparr>))"

text \<open>\<open>tx.transaction.findUnique({where: {idempotencyKey}})\<close>.\<close>

definition transaction_findUnique ::
  "TransactionClient \<Rightarrow> string \<Rightarrow> error + Transaction option" where
  "transaction_findUnique tx idempotencyKey =
     (if tx_aborted tx then Inl inFailedSqlTransaction
      else Inr (find (\<lambda>t. t_idempotencyKey t = idempotencyKey)
                  (transactions (tx_database tx))))"

text \<open>No row has the new id or the request's idempotency key.\<close>

definition freshFor :: "Database \<Rightarrow> string \<Rightarrow> string \<Rightarrow> bool" where
  "freshFor db newId idempotencyKey =
     (\<forall>t\<in>set (transactions db). t_id t \<noteq> newId \<and> t_idempotencyKey t \<noteq> idempotencyKey)"

datatype IdempotencyRecord =
  Created string string
| Replay WalletMutationResult

text \<open>The \<open>data\<close> of the row that \<open>createOrReplayTransaction\<close> inserts.\<close>

definition processingRow ::
  "TransactionType \<Rightarrow> WalletMutationRequest \<Rightarrow> string \<Rightarrow> string \<Rightarrow> string
     \<Rightarrow> string \<Rightarrow> string \<Rightarrow> Transaction" where
  "processingRow type input assetTypeId sourceWalletId destinationWalletId newId now =
     \<lparr> t_id = newId,
       t_idempotencyKey = rq_idempotencyKey input,
       t_requestHash = rq_requestFingerprint input,
       t_type = type,
       t_status = PROCESSING,
       t_amount = rq_amount input,
       t_assetTypeId = assetTypeId,
       t_sourceWalletId = sourceWalletId,
       t_destinationWalletId = destinationWalletId,
       t_responseCode = None,
       t_responseBody = None,
       t_errorCode = None,
       t_createdAt = now \<rparr>"

text \<open>
  The \<open>try\<close> is the insert; the \<open>catch\<close> rethrows every error but P2002 and then reads
  the row of the key through the same \<open>tx\<close>, in the state the failed insert left it.
\<close>

definition createOrReplayTransaction ::
  "TransactionClient \<Rightarrow> TransactionType \<Rightarrow> WalletMutationRequest \<Rightarrow> string \<Rightarrow> string
     \<Rightarrow> string \<Rightarrow> string \<Rightarrow> string \<Rightarrow> error + IdempotencyRecord \<times> TransactionClient" where
  "createOrReplayTransaction tx type input assetTypeId sourceWalletId destinationWalletId
       newId now =
     (case transaction_create tx
             (processingRow type input assetTypeId sourceWalletId destinationWalletId
                newId now) of
        (Inr created, tx1) \<Rightarrow> Inr (Created (t_id created) (t_createdAt created), tx1)
      | (Inl err, tx1) \<Rightarrow>
          (if err \<noteq> PrismaClientKnownRequestError ''P2002'' then Inl err
           else case transaction_findUnique tx1 (rq_idempotencyKey input) of
                  Inl failure \<Rightarrow> Inl failure
                | Inr None \<Rightarrow> Inl (AppError 500 ''IDEMPOTENCY_STATE_NOT_FOUND''
                                    ''Failed to load transaction for existing Idempotency-Key'')
                | Inr (Some existing) \<Rightarrow>
                    (if t_requestHash existing \<noteq> rq_requestFingerprint input
                     then Inl (AppError 409 ''IDEMPOTENCY_KEY_REUSED_WITH_DIFFERENT_REQUEST''
                       ''Idempotency-Key has already been used with a different request payload'')
                     else case (t_responseCode existing, t_responseBody existing) of
                            (Some responseCode, Some responseBody) \<Rightarrow>
                              Inr (Replay \<lparr> statusCode = responseCode,
                                           body = responseBody,
                                           replayed = True \<rparr>, tx1)
                          | _ \<Rightarrow> Inl (AppError 409 ''REQUEST_ALREADY_IN_PROGRESS''
                              ''A request with this Idempotency-Key is currently in progress''))))"

subsection \<open>lockWallets and bumpWalletVersions\<close>

text \<open>
  The rows of \<open>SELECT id, version FROM wallets WHERE id IN (...) ORDER BY id FOR UPDATE\<close>.
  The ids are uuids, which the database orders by their bytes; on their text that is
  the code-point order.
\<close>

definition lockWallets :: "comparator \<Rightarrow> Database \<Rightarrow> string list \<Rightarrow> (string \<times> int) list" where
  "lockWallets lc db walletIds =
     (let orderedWalletIds = sortUniqueWalletIds lc walletIds;
          rows = sortBy (\<lambda>a b. codePointCompare (w_id a) (w_id b))
                   (filter (\<lambda>w. w_id w \<in> set orderedWalletIds) (wallets db))
      in map (\<lambda>row. (w_id row, w_version row)) rows)"

text \<open>
  \<open>tx.wallet.updateMany({where: {id, version}, data: {version: {increment: 1}}})\<close>:
  the new table and the number of rows changed.
\<close>

definition wallet_updateMany :: "Database \<Rightarrow> string \<Rightarrow> int \<Rightarrow> Database \<times> nat" where
  "wallet_updateMany db walletId version =
     (db\<lparr>wallets := map (\<lambda>w. if w_id w = walletId \<and> w_version w = version
                               then w\<lparr>w_version := w_version w + 1\<rparr> else w) (wallets db)\<rparr>,
      length (filter (\<lambda>w. w_id w = walletId \<and> w_version w = version) (wallets db)))"

definition assertOptimisticWalletUpdates :: "(string \<times> nat) list \<Rightarrow> error + unit" where
  "assertOptimisticWalletUpdates results =
     (case find (\<lambda>result. snd result \<noteq> 1) results of
        None \<Rightarrow> Inr ()
      | Some conflicted \<Rightarrow>
          Inl (AppError 409 ''OPTIMISTIC_LOCK_CONFLICT''
                 (''Concurrent wallet update detected for wallet '' @ fst conflicted)))"

fun bumpLoop :: "Database \<Rightarrow> (string \<times> int) list \<Rightarrow> (string \<times> nat) list
                   \<Rightarrow> Database \<times> (string \<times> nat) list" where
  "bumpLoop db [] updates = (db, updates)"
| "bumpLoop db (wallet # rest) updates =
     (let (db', updatedCount) = wallet_updateMany db (fst wallet) (snd wallet)
      in bumpLoop db' rest (updates @ [(fst wallet, updatedCount)]))"

definition bumpWalletVersions :: "Database \<Rightarrow> (string \<times> int) list \<Rightarrow> error + Database" where
  "bumpWalletVersions db lockedWallets =
     (let (db', updates) = bumpLoop db lockedWallets []
      in case assertOptimisticWalletUpdates updates of
           Inl err \<Rightarrow> Inl err
         | Inr _ \<Rightarrow> Inr db')"

subsection \<open>executeMutation\<close>

definition transaction_update ::
  "Database \<Rightarrow> string \<Rightarrow> (Transaction \<Rightarrow> Transaction) \<Rightarrow> Database" where
  "transaction_update db transactionId change =
     db\<lparr>transactions := map (\<lambda>t. if t_id t = transactionId then change t else t)
                           (transactions db)\<rparr>"

definition ledgerEntry_createMany :: "Database \<Rightarrow> LedgerEntry list \<Rightarrow> Database" where
  "ledgerEntry_createMany db entries = db\<lparr>ledgerEntries := ledgerEntries db @ entries\<rparr>"

text \<open>The values \<open>executeMutation\<close> writes: the failure body, the two entries, the success body.\<close>

definition insufficientFundsBody :: WalletMutationPayload where
  "insufficientFundsBody = ErrorPayload ''INSUFFICIENT_FUNDS'' ''Insufficient wallet balance''"

definition markFailed :: "Transaction \<Rightarrow> Transaction" where
  "markFailed t = t\<lparr> t_status := FAILED,
                    t_errorCode := Some ''INSUFFICIENT_FUNDS'',
                    t_responseCode := Some 409,
                    t_responseBody := Some insufficientFundsBody \<rparr>"

definition markPosted :: "WalletMutationPayload \<Rightarrow> Transaction \<Rightarrow> Transaction" where
  "markPosted payload t = t\<lparr> t_status := POSTED,
                            t_responseCode := Some 200,
                            t_responseBody := Some payload \<rparr>"

definition debitEntry :: "string \<Rightarrow> string \<Rightarrow> string \<Rightarrow> int \<Rightarrow> LedgerEntry" where
  "debitEntry transactionId sourceWalletId assetTypeId amount =
     \<lparr> le_transactionId = transactionId,
       le_walletId = sourceWalletId,
       le_assetTypeId = assetTypeId,
       le_entryType = DEBIT,
       le_amount = amount \<rparr>"

definition creditEntry :: "string \<Rightarrow> string \<Rightarrow> string \<Rightarrow> int \<Rightarrow> LedgerEntry" where
  "creditEntry transactionId destinationWalletId assetTypeId amount =
     \<lparr> le_transactionId = transactionId,
       le_walletId = destinationWalletId,
       le_assetTypeId = assetTypeId,
       le_entryType = CREDIT,
       le_amount = amount \<rparr>"

definition successBody ::
  "TransactionType \<Rightarrow> WalletMutationRequest \<Rightarrow> WalletExecutionContext \<Rightarrow> string \<Rightarrow> string
     \<Rightarrow> string \<Rightarrow> string \<Rightarrow> int \<Rightarrow> WalletMutationPayload" where
  "successBody type input context transactionId sourceWalletId destinationWalletId createdAt
       userBalance =
     SuccessPayload
       \<lparr> sp_transactionId = transactionId,
         sp_idempotencyKey = rq_idempotencyKey input,
         sp_operation = operationLabel type,
         sp_userId = rq_userId input,
         sp_assetCode = ctx_assetCode context,
         sp_amount = bigintToString (rq_amount input),
         sp_balance = bigintToString userBalance,
         sp_fromWalletId = sourceWalletId,
         sp_toWalletId = destinationWalletId,
         sp_createdAt = createdAt \<rparr>"

text \<open>
  \<open>prisma.$transaction\<close> with its callback: the transaction begins on the database as it
  is, with no statement failed. \<open>Inl\<close> is an exception, which rolls the transaction
  back; \<open>Inr\<close> carries the result and the database that is committed. The statements
  after the insert are reached only with the transaction live.
\<close>

definition mutationTransaction ::
  "comparator \<Rightarrow> TransactionType \<Rightarrow> WalletMutationRequest \<Rightarrow> WalletExecutionContext
     \<Rightarrow> string \<Rightarrow> string \<Rightarrow> string \<Rightarrow> string \<Rightarrow> Database
     \<Rightarrow> error + WalletMutationResult \<times> Database" where
  "mutationTransaction lc type input context sourceWalletId destinationWalletId newId now db =
     (case createOrReplayTransaction \<lparr> tx_database = db, tx_aborted = False \<rparr> type input
             (ctx_assetTypeId context) sourceWalletId destinationWalletId newId now of
        Inl err \<Rightarrow> Inl err
      | Inr (Replay result, tx1) \<Rightarrow> Inr (result, tx_database tx1)
      | Inr (Created transactionId createdAt, tx1) \<Rightarrow>
          (let db1 = tx_database tx1;
               lockedWallets = lockWallets lc db1 [sourceWalletId, destinationWalletId];
               expectedWalletIds = sortUniqueWalletIds lc [sourceWalletId, destinationWalletId]
           in if length lockedWallets \<noteq> length expectedWalletIds
              then Inl (AppError 409 ''LOCKED_WALLET_MISMATCH''
                          ''Wallet set changed during transaction. Retry request.'')
              else
                (let sourceBalance = getWalletBalance db1 sourceWalletId (ctx_assetTypeId context)
                 in if sourceBalance < rq_amount input
                    then
                      (let payload = insufficientFundsBody;
                           db2 = transaction_update db1 transactionId markFailed
                       in Inr (\<lparr> statusCode = 409, body = payload, replayed = False \<rparr>,
                               db2))
                    else
                      (let db2 = ledgerEntry_createMany db1
                                   [ debitEntry transactionId sourceWalletId
                                       (ctx_assetTypeId context) (rq_amount input),
                                     creditEntry transactionId destinationWalletId
                                       (ctx_assetTypeId context) (rq_amount input) ]
                       in case bumpWalletVersions db2 lockedWallets of
                            Inl err \<Rightarrow> Inl err
                          | Inr db3 \<Rightarrow>
                              (let userBalance = getWalletBalance db3 (ctx_userWalletId context)
                                                   (ctx_assetTypeId context);
                                   payload = successBody type input context transactionId
                                               sourceWalletId destinationWalletId createdAt
                                               userBalance;
                                   db4 = transaction_update db3 transactionId
                                           (markPosted payload)
                               in Inr (\<lparr> statusCode = 200, body = payload,
                                         replayed = False \<rparr>, db4))))))"

text \<open>
  \<open>executeMutation\<close>, with what the outside supplies made explicit: the host collation
  \<open>lc\<close>, the lock settings, the lock token drawn by \<open>randomUUID\<close>, and the id and
  timestamp the database gives the new transaction row. It returns the result or the
  exception, and the world it leaves behind; the lock is released on every path that
  acquired it.
\<close>

definition executeMutation ::
  "comparator \<Rightarrow> Env \<Rightarrow> string \<Rightarrow> string \<Rightarrow> string \<Rightarrow> TransactionType
     \<Rightarrow> WalletMutationRequest \<Rightarrow> World \<Rightarrow> (error + WalletMutationResult) \<times> World" where
  "executeMutation lc env token newId now type input world =
     (case idempotencyCache_get world (rq_idempotencyKey input) of
        Some cached \<Rightarrow>
          (if c_requestFingerprint cached \<noteq> rq_requestFingerprint input
           then (Inl (AppError 409 ''IDEMPOTENCY_KEY_REUSED_WITH_DIFFERENT_REQUEST''
                   ''Idempotency-Key has already been used with a different request payload''),
                 world)
           else (Inr \<lparr> statusCode = c_statusCode cached, body = c_body cached,
                       replayed = True \<rparr>, world))
      | None \<Rightarrow>
          (case resolveContext (database world) (rq_userId input) (rq_assetCode input) of
             Inl err \<Rightarrow> (Inl err, world)
           | Inr context \<Rightarrow>
               (let sourceWalletId = sourceWalletIdOf type context;
                    destinationWalletId = destinationWalletIdOf type context
                in case acquireWalletLocks redisLockClient env lc
                          [sourceWalletId, destinationWalletId] token (locks world) of
                     (Inl err, locks1, events) \<Rightarrow> (Inl err, world\<lparr>locks := locks1\<rparr>)
                   | (Inr distributedLock, locks1, events) \<Rightarrow>
                       (case mutationTransaction lc type input context sourceWalletId
                               destinationWalletId newId now (database world) of
                          Inl err \<Rightarrow>
                            (Inl err,
                             world\<lparr>locks := release redisLockClient distributedLock locks1\<rparr>)
                        | Inr (result, db') \<Rightarrow>
                            (Inr result,
                             (idempotencyCache_set (world\<lparr>database := db'\<rparr>)
                                (rq_idempotencyKey input)
                                \<lparr> c_requestFingerprint = rq_requestFingerprint input,
                                  c_statusCode = statusCode result,
                                  c_body = body result \<rparr>)
                             \<lparr>locks := release redisLockClient distributedLock locks1\<rparr>)))))"

definition topup ::
  "comparator \<Rightarrow> Env \<Rightarrow> string \<Rightarrow> string \<Rightarrow> string \<Rightarrow> WalletMutationRequest \<Rightarrow> World
     \<Rightarrow> (error + WalletMutationResult) \<times> World" where
  "topup lc env token newId now input world =
     executeMutation lc env token newId now TOPUP input world"

definition bonus ::
  "comparator \<Rightarrow> Env \<Rightarrow> string \<Rightarrow> string \<Rightarrow> string \<Rightarrow> WalletMutationRequest \<Rightarrow> World
     \<Rightarrow> (error + WalletMutationResult) \<times> World" where
  "bonus lc env token newId now input world =
     executeMutation lc env token newId now BONUS input world"

definition spend ::
  "comparator \<Rightarrow> Env \<Rightarrow> string \<Rightarrow> string \<Rightarrow> string \<Rightarrow> WalletMutationRequest \<Rightarrow> World
     \<Rightarrow> (error + WalletMutationResult) \<times> World" where
  "spend lc env token newId now input world =
     executeMutation lc env token newId now SPEND input world"


subsection \<open>getBalance\<close>

record UserBalanceRow =
  br_assetCode :: string
  br_assetName :: string
  br_balance :: int

record BalanceItem =
  b_assetCode :: string
  b_assetName :: string
  b_balance :: string

record WalletBalanceResponse =
  r_userId :: string
  r_balances :: "BalanceItem list"

text \<open>
  The balance query, clause by clause. \<open>FROM wallets w JOIN asset_types a LEFT JOIN
  ledger_entries le\<close>: every wallet with its asset type and each of its ledger entries,
  or with a null entry when it has none.
\<close>

definition leftJoinEntries :: "Database \<Rightarrow> Wallet \<Rightarrow> AssetType
    \<Rightarrow> (Wallet \<times> AssetType \<times> LedgerEntry option) list" where
  "leftJoinEntries db w a =
     (let matching = filter (\<lambda>le. le_walletId le = w_id w \<and> le_assetTypeId le = w_assetTypeId w)
                       (ledgerEntries db)
      in if matching = [] then [(w, a, None)] else map (\<lambda>le. (w, a, Some le)) matching)"

definition joinedRows :: "Database \<Rightarrow> (Wallet \<times> AssetType \<times> LedgerEntry option) list" where
  "joinedRows db =
     concat (map (\<lambda>w. concat (map (\<lambda>a. if a_id a = w_assetTypeId w
                                         then leftJoinEntries db w a else [])
                                (assetTypes db)))
               (wallets db))"

text \<open>The \<open>WHERE\<close> clause, with the asset filter when one is given.\<close>

definition whereRows :: "string \<Rightarrow> string option
    \<Rightarrow> (Wallet \<times> AssetType \<times> LedgerEntry option) list
    \<Rightarrow> (Wallet \<times> AssetType \<times> LedgerEntry option) list" where
  "whereRows userId assetFilter rows =
     filter (\<lambda>(w, a, le). w_ownerType w = USER \<and> w_userId w = Some userId
                \<and> (case assetFilter of None \<Rightarrow> True | Some code \<Rightarrow> a_code a = code))
       rows"

text \<open>\<open>SUM\<close> skips nulls and is null when nothing is left; \<open>COALESCE\<close> replaces a null.\<close>

definition sqlSum :: "int option list \<Rightarrow> int option" where
  "sqlSum values =
     (case List.map_filter (\<lambda>v. v) values of [] \<Rightarrow> None | present \<Rightarrow> Some (sum_list present))"

definition coalesce :: "int option \<Rightarrow> int \<Rightarrow> int" where
  "coalesce v d = (case v of None \<Rightarrow> d | Some x \<Rightarrow> x)"

text \<open>
  \<open>GROUP BY a.code, a.name\<close> with the aggregate, then \<open>ORDER BY a.code\<close> in the collation
  \<open>dbCollate\<close> of the database.
\<close>

definition groupedRows :: "(Wallet \<times> AssetType \<times> LedgerEntry option) list \<Rightarrow> UserBalanceRow list" where
  "groupedRows rows =
     map (\<lambda>(code, name).
            \<lparr> br_assetCode = code,
              br_assetName = name,
              br_balance = coalesce
                (sqlSum (map (\<lambda>(w, a, le). map_option signedAmount le)
                           (filter (\<lambda>(w, a, le). a_code a = code \<and> a_name a = name) rows)))
                0 \<rparr>)
       (newSet (map (\<lambda>(w, a, le). (a_code a, a_name a)) rows))"

definition balanceQuery :: "comparator \<Rightarrow> Database \<Rightarrow> string \<Rightarrow> string option \<Rightarrow> UserBalanceRow list" where
  "balanceQuery dbCollate db userId assetFilter =
     sortBy (\<lambda>r1 r2. dbCollate (br_assetCode r1) (br_assetCode r2))
       (groupedRows (whereRows userId assetFilter (joinedRows db)))"

text \<open>
  \<open>getBalance\<close>. An asset code that is absent or the empty string is falsy in
  JavaScript and adds no filter.
\<close>

definition getBalance ::
  "comparator \<Rightarrow> Database \<Rightarrow> string \<Rightarrow> string option \<Rightarrow> error + WalletBalanceResponse" where
  "getBalance dbCollate db userId assetCode =
     (case find (\<lambda>u. u_id u = userId) (users db) of
        None \<Rightarrow> Inl (AppError 404 ''USER_NOT_FOUND'' ''User does not exist'')
      | Some user \<Rightarrow>
          (let normalizedAssetCode = map_option toUpperCase assetCode;
               assetFilter = (case normalizedAssetCode of
                                None \<Rightarrow> None
                              | Some code \<Rightarrow> if code = [] then None else Some code);
               rows = balanceQuery dbCollate db userId assetFilter
           in case assetFilter of
                Some code \<Rightarrow>
                  (if length rows = 0
                   then Inl (AppError 404 ''ASSET_WALLET_NOT_FOUND''
                               (''User does not have a wallet for asset '' @ code))
                   else Inr \<lparr> r_userId = userId,
                              r_balances = map (\<lambda>row. \<lparr> b_assetCode = br_assetCode row,
                                                         b_assetName = br_assetName row,
                                                         b_balance = bigintToString (br_balance row) \<rparr>)
                                             rows \<rparr>)
              | None \<Rightarrow>
                  Inr \<lparr> r_userId = userId,
                        r_balances = map (\<lambda>row. \<lparr> b_assetCode = br_assetCode row,
                                                   b_assetName = br_assetName row,
                                                   b_balance = bigintToString (br_balance row) \<rparr>)
                                       rows \<rparr>))"


section \<open>Request fingerprint (src/utils/request-fingerprint.ts)\<close>

text \<open>
  A decoded request body, as \<open>JSON.parse\<close> hands it over. A number is a double.
  \<open>Finite m e\<close> is the finite double for which \<open>Number::toString\<close> finds the decimal
  \<open>m \<times> 10^e\<close>, the decimal of fewest digits that reads back as that double: 1 is
  \<open>Finite 1 0\<close>, 0.1 is \<open>Finite 1 (-1)\<close>, and the double 12345678901234567168 is
  \<open>Finite 12345678901234567 3\<close>. Trailing zeros of \<open>m\<close> count with the exponent, so that
  \<open>Finite 100 0\<close> and \<open>Finite 1 2\<close> are one number. \<open>Finite 0 e\<close> is +0, and -0 is
  \<open>NegativeZero\<close>. A numeral beyond the range of a double, such as \<open>1e999\<close>, parses to
  \<open>Infinity\<close>; no JSON text parses to NaN. Which double a numeral of the request text
  denotes is settled by the parser, before the fingerprint is taken. An object lists
  its entries in the order of \<open>Object.entries\<close>; the keys of an object are distinct.
\<close>

datatype jsnumber = Finite int int | NegativeZero | Infinity | NegativeInfinity

datatype json =
  JNull
| JBool bool
| JNumber jsnumber
| JString string
| JArray "json list"
| JObject "(string \<times> json) list"

text \<open>
  \<open>JSON.stringify\<close> of a string: the text between double quotes, with the quote and the
  backslash escaped, the control characters written as \<open>\b \t \n \f \r\<close> or \<open>\u00XX\<close>,
  and every other character as it is.
\<close>

definition hexDigit :: "nat \<Rightarrow> char" where
  "hexDigit d = (if d < 10 then char_of (48 + d) else char_of (87 + d))"

definition escapeChar :: "char \<Rightarrow> string" where
  "escapeChar c =
     (let n = of_char c :: nat
      in if n = 34 then [CHR 0x5C, CHR 0x22]
         else if n = 92 then [CHR 0x5C, CHR 0x5C]
         else if n = 8 then [CHR 0x5C, CHR ''b'']
         else if n = 9 then [CHR 0x5C, CHR ''t'']
         else if n = 10 then [CHR 0x5C, CHR ''n'']
         else if n = 12 then [CHR 0x5C, CHR ''f'']
         else if n = 13 then [CHR 0x5C, CHR ''r'']
         else if n < 32 then [CHR 0x5C, CHR ''u'', CHR ''0'', CHR ''0'',
                              hexDigit (n div 16), hexDigit (n mod 16)]
         else [c])"

definition quoteJSONString :: "string \<Rightarrow> string" where
  "quoteJSONString s = CHR 0x22 # concat (map escapeChar s) @ [CHR 0x22]"

text \<open>
  \<open>Number::toString\<close> in radix 10. For a positive number it takes the digits \<open>s\<close> of the
  shortest decimal, their count \<open>k\<close> and the position \<open>n\<close> of the decimal point, with
  \<open>s \<times> 10^(n - k)\<close> the number and \<open>s\<close> not divisible by 10, and prints
  \<^item> the digits and \<open>n - k\<close> zeros when \<open>k \<le> n \<le> 21\<close>;
  \<^item> the digits with a point after the first \<open>n\<close> of them when \<open>0 < n \<le> 21\<close>;
  \<^item> \<open>0.\<close>, then \<open>-n\<close> zeros, then the digits when \<open>-6 < n \<le> 0\<close>;
  \<^item> otherwise the exponent form: the first digit, a point and the other digits when
    there are any, then \<open>e\<close>, the sign and the digits of \<open>n - 1\<close>.
\<close>

function decimalDigits :: "int \<Rightarrow> string" where
  "decimalDigits i =
     (if i < 10 then [digitChar (nat i)]
      else decimalDigits (i div 10) @ [digitChar (nat (i mod 10))])"
  by pat_completeness auto
termination
  by (relation "measure nat") simp_all

function trimZeros :: "int \<Rightarrow> int \<Rightarrow> int \<times> int" where
  "trimZeros s e = (if 0 < s \<and> s mod 10 = 0 then trimZeros (s div 10) (e + 1) else (s, e))"
  by pat_completeness auto
termination
proof (relation "measure (\<lambda>(s, e). nat s)", goal_cases)
  case 1
  show ?case by simp
next
  case (2 s e)
  then have "s div 10 < s" by (simp add: int_div_less_self)
  with 2 show ?case by simp
qed

definition formatDecimal :: "string \<Rightarrow> int \<Rightarrow> string" where
  "formatDecimal digits n =
     (let k = int (length digits)
      in if k \<le> n \<and> n \<le> 21 then digits @ replicate (nat (n - k)) (CHR ''0'')
         else if 0 < n \<and> n \<le> 21 then take (nat n) digits @ ''.'' @ drop (nat n) digits
         else if - 6 < n \<and> n \<le> 0 then ''0.'' @ replicate (nat (- n)) (CHR ''0'') @ digits
         else (let exponent = (if n - 1 < 0 then ''-'' else ''+'') @ decimalDigits \<bar>n - 1\<bar>
               in if k = 1 then digits @ ''e'' @ exponent
                  else take 1 digits @ ''.'' @ drop 1 digits @ ''e'' @ exponent))"

definition decimalToString :: "int \<Rightarrow> int \<Rightarrow> string" where
  "decimalToString m e =
     (let (s, e') = trimZeros m e;
          digits = decimalDigits s
      in formatDecimal digits (e' + int (length digits)))"

definition numberToString :: "jsnumber \<Rightarrow> string" where
  "numberToString x =
     (case x of
        Finite m e \<Rightarrow>
          (if m = 0 then ''0''
           else if m < 0 then ''-'' @ decimalToString (- m) e
           else decimalToString m e)
      | NegativeZero \<Rightarrow> ''0''
      | Infinity \<Rightarrow> ''Infinity''
      | NegativeInfinity \<Rightarrow> ''-Infinity'')"

definition isFinite :: "jsnumber \<Rightarrow> bool" where
  "isFinite x = (case x of Infinity \<Rightarrow> False | NegativeInfinity \<Rightarrow> False | _ \<Rightarrow> True)"

text \<open>\<open>JSON.stringify\<close> of a number: \<open>Number::toString\<close>, and \<open>null\<close> when it is not finite.\<close>

definition jsonStringifyNumber :: "jsnumber \<Rightarrow> string" where
  "jsonStringifyNumber x = (if isFinite x then numberToString x else ''null'')"

text \<open>\<open>Array.prototype.join\<close>.\<close>

fun joinWith :: "string \<Rightarrow> string list \<Rightarrow> string" where
  "joinWith sep [] = []"
| "joinWith sep [x] = x"
| "joinWith sep (x # y # ys) = x @ sep @ joinWith sep (y # ys)"

function stableStringify :: "comparator \<Rightarrow> json \<Rightarrow> string" where
  "stableStringify lc JNull = ''null''"
| "stableStringify lc (JBool b) = (if b then ''true'' else ''false'')"
| "stableStringify lc (JNumber n) = jsonStringifyNumber n"
| "stableStringify lc (JString s) = quoteJSONString s"
| "stableStringify lc (JArray items) =
     ''['' @ joinWith '','' (map (stableStringify lc) items) @ '']''"
| "stableStringify lc (JObject entries) =
     ''{'' @ joinWith '',''
              (map (\<lambda>(key, v). quoteJSONString key @ '':'' @ stableStringify lc v)
                 (sortBy (\<lambda>l r. lc (fst l) (fst r)) entries))
      @ ''}''"
  by pat_completeness auto
termination
proof (relation "measure (\<lambda>(lc, j). size j)", goal_cases)
  case 1
  show ?case by simp
next
  case (2 lc items x)
  then have "size x \<le> size_list size items"
    by (simp add: size_list_estimation')
  then show ?case by simp
next
  case (3 lc entries x key v)
  have ins: "set (insertBy cmp e es) = insert e (set es)"
    for cmp :: "string \<times> json \<Rightarrow> string \<times> json \<Rightarrow> int" and e es
    by (induction es) auto
  have "set (sortBy cmp es) = set es"
    for cmp :: "string \<times> json \<Rightarrow> string \<times> json \<Rightarrow> int" and es
    by (induction es) (simp_all add: sortBy_def ins)
  with 3 have "(key, v) \<in> set entries"
    by simp
  then have "size_prod (\<lambda>_. 0) size (key, v) \<le> size_list (size_prod (\<lambda>_. 0) size) entries"
    by (rule size_list_estimation') simp
  then show ?case by simp
qed

text \<open>
  The string that is hashed, and the fingerprint. The digest, \<open>sha256\<close> in hexadecimal
  from the runtime's crypto library, is the argument \<open>sha256hex\<close>.
\<close>

definition requestMaterial :: "comparator \<Rightarrow> string \<Rightarrow> string \<Rightarrow> json \<Rightarrow> string" where
  "requestMaterial lc method path requestBody =
     toUpperCase method @ ''|'' @ path @ ''|'' @ stableStringify lc requestBody"

definition buildRequestFingerprint ::
  "(string \<Rightarrow> string) \<Rightarrow> comparator \<Rightarrow> string \<Rightarrow> string \<Rightarrow> json \<Rightarrow> string" where
  "buildRequestFingerprint sha256hex lc method path requestBody =
     sha256hex (requestMaterial lc method path requestBody)"

subsection \<open>Structural equality of bodies\<close>

text \<open>
  Two numbers are the same, as \<open>===\<close> has it, when they are the same double: the same
  decimal once the trailing zeros have gone to the exponent, +0 and -0 being equal.
\<close>

definition normalForm :: "jsnumber \<Rightarrow> jsnumber" where
  "normalForm x =
     (case x of
        Finite m e \<Rightarrow>
          (if m = 0 then Finite 0 0
           else (let (s, e') = trimZeros \<bar>m\<bar> e
                 in Finite (if m < 0 then - s else s) e'))
      | NegativeZero \<Rightarrow> Finite 0 0
      | Infinity \<Rightarrow> Infinity
      | NegativeInfinity \<Rightarrow> NegativeInfinity)"

definition strictEquals :: "jsnumber \<Rightarrow> jsnumber \<Rightarrow> bool" where
  "strictEquals a b \<longleftrightarrow> normalForm a = normalForm b"

text \<open>
  Two JSON values are structurally equal when they are the same primitive, arrays of
  pairwise equal elements, or objects with the same keys and equal values under each
  key, in whatever order the entries are listed.
\<close>

fun jsonEq :: "json \<Rightarrow> json \<Rightarrow> bool" where
  "jsonEq JNull JNull = True"
| "jsonEq (JBool a) (JBool b) = (a = b)"
| "jsonEq (JNumber a) (JNumber b) = strictEquals a b"
| "jsonEq (JString a) (JString b) = (a = b)"
| "jsonEq (JArray xs) (JArray ys) = list_all2 (\<lambda>x y. jsonEq x y) xs ys"
| "jsonEq (JObject es) (JObject fs) =
     (set (map fst es) = set (map fst fs)
      \<and> (\<forall>(k, v)\<in>set es. \<forall>(k', v')\<in>set fs. k = k' \<longrightarrow> jsonEq v v'))"
| "jsonEq _ _ = False"

text \<open>The keys of every object in the value are distinct, as in any JavaScript object.\<close>

fun distinctKeys :: "json \<Rightarrow> bool" where
  "distinctKeys (JArray items) = (\<forall>x\<in>set items. distinctKeys x)"
| "distinctKeys (JObject entries) =
     (distinct (map fst entries) \<and> (\<forall>(k, v)\<in>set entries. distinctKeys v))"
| "distinctKeys _ = True"

text \<open>Every number in the value is finite.\<close>

fun finiteNumbers :: "json \<Rightarrow> bool" where
  "finiteNumbers (JNumber x) = isFinite x"
| "finiteNumbers (JArray items) = (\<forall>x\<in>set items. finiteNumbers x)"
| "finiteNumbers (JObject entries) = (\<forall>(k, v)\<in>set entries. finiteNumbers v)"
| "finiteNumbers _ = True"

fun keysOf :: "json \<Rightarrow> string list" where
  "keysOf (JArray items) = concat (map keysOf items)"
| "keysOf (JObject entries) = map fst entries @ concat (map (\<lambda>(k, v). keysOf v) entries)"
| "keysOf _ = []"

text \<open>
  The collation orders a set of keys strictly: any two are comparable, no two different
  ones compare as equal, and the order is transitive.
\<close>

definition strictOn :: "comparator \<Rightarrow> string set \<Rightarrow> bool" where
  "strictOn lc S \<longleftrightarrow>
     (\<forall>a\<in>S. \<forall>b\<in>S. (lc a b \<le> 0 \<or> lc b a \<le> 0) \<and> (lc a b \<le> 0 \<and> lc b a \<le> 0 \<longrightarrow> a = b))
     \<and> (\<forall>a\<in>S. \<forall>b\<in>S. \<forall>c\<in>S. lc a b \<le> 0 \<longrightarrow> lc b c \<le> 0 \<longrightarrow> lc a c \<le> 0)"


section \<open>Idempotency middleware (requireIdempotency)\<close>

text \<open>
  The request as the middleware sees it: the body is what \<open>express.json\<close> decoded, before
  \<open>validate\<close> has parsed it with the schema of the route.
\<close>

record Request =
  req_method :: string
  req_originalUrl :: string
  req_idempotencyKey :: "string option"
  req_body :: "json option"

definition getPathWithoutQuery :: "Request \<Rightarrow> string" where
  "getPathWithoutQuery request = takeWhile (\<lambda>c. c \<noteq> CHR ''?'') (req_originalUrl request)"

text \<open>
  The middleware either answers from the cache, or calls \<open>next\<close> with the key and the
  fingerprint stored on the request.
\<close>

datatype GateResult =
  Replayed int WalletMutationPayload
| Next string string

definition requireIdempotency ::
  "(string \<Rightarrow> string) \<Rightarrow> comparator \<Rightarrow> World \<Rightarrow> Request \<Rightarrow> error + GateResult" where
  "requireIdempotency sha256hex lc world request =
     (case req_idempotencyKey request of
        None \<Rightarrow> Inl (AppError 400 ''IDEMPOTENCY_KEY_MISSING'' ''Idempotency-Key header is required'')
      | Some idempotencyKey \<Rightarrow>
          (if idempotencyKey = []
           then Inl (AppError 400 ''IDEMPOTENCY_KEY_MISSING'' ''Idempotency-Key header is required'')
           else
             (let requestFingerprint =
                    buildRequestFingerprint sha256hex lc (req_method request)
                      (getPathWithoutQuery request)
                      (case req_body request of
                         None \<Rightarrow> JObject []
                       | Some JNull \<Rightarrow> JObject []
                       | Some decoded \<Rightarrow> decoded)
              in case idempotencyCache_get world idempotencyKey of
                   Some cached \<Rightarrow>
                     (if c_requestFingerprint cached \<noteq> requestFingerprint
                      then Inl (AppError 409 ''IDEMPOTENCY_KEY_REUSED_WITH_DIFFERENT_REQUEST''
                        ''Idempotency-Key has already been used with a different request payload'')
                      else Inr (Replayed (c_statusCode cached) (c_body cached)))
                 | None \<Rightarrow> Inr (Next idempotencyKey requestFingerprint))))"


section \<open>Notions used in the proofs about the fingerprint\<close>

definition isDigit :: "char \<Rightarrow> bool" where
  "isDigit c \<longleftrightarrow> 48 \<le> (of_char c :: nat) \<and> (of_char c :: nat) \<le> 57"

definition numChar :: "char \<Rightarrow> bool" where
  "numChar c \<longleftrightarrow>
     c = CHR ''-'' \<or> c = CHR ''+'' \<or> c = CHR ''.'' \<or> c = CHR ''e'' \<or> isDigit c"

definition delimited :: "string \<Rightarrow> bool" where
  "delimited r \<longleftrightarrow> (case r of [] \<Rightarrow> True | c # _ \<Rightarrow> c = CHR '','' \<or> c = CHR '']'' \<or> c = CHR ''}'')"

definition readNat :: "string \<Rightarrow> nat" where
  "readNat s = foldl (\<lambda>a c. 10 * a + (of_char c - 48)) 0 s"

text \<open>The digits of a shortest decimal: no leading and no trailing zero.\<close>

definition digitString :: "string \<Rightarrow> bool" where
  "digitString ds \<longleftrightarrow>
     ds \<noteq> [] \<and> (\<forall>c\<in>set ds. isDigit c) \<and> hd ds \<noteq> CHR ''0'' \<and> last ds \<noteq> CHR ''0''"

text \<open>
  Reading a printed positive number back: the digits without trailing zeros, and the
  position of the decimal point.
\<close>

definition readExponent :: "string \<Rightarrow> int" where
  "readExponent x =
     (case x of
        [] \<Rightarrow> 0
      | c # ds \<Rightarrow> if c = CHR ''-'' then - int (readNat ds) else int (readNat ds))"

definition readDecimal :: "string \<Rightarrow> string \<times> int" where
  "readDecimal out =
     (let mantissa = takeWhile (\<lambda>c. c \<noteq> CHR ''e'') out;
          rest = dropWhile (\<lambda>c. c \<noteq> CHR ''e'') out
      in if rest \<noteq> []
         then (filter (\<lambda>c. c \<noteq> CHR ''.'') mantissa, readExponent (tl rest) + 1)
         else if CHR ''.'' \<in> set out
         then (if hd out = CHR ''0''
               then (dropWhile (\<lambda>c. c = CHR ''0'') (drop 2 out),
                     - int (length (takeWhile (\<lambda>c. c = CHR ''0'') (drop 2 out))))
               else (filter (\<lambda>c. c \<noteq> CHR ''.'') out,
                     int (length (takeWhile (\<lambda>c. c \<noteq> CHR ''.'') out))))
         else (rev (dropWhile (\<lambda>c. c = CHR ''0'') (rev out)), int (length out)))"

definition hexValue :: "char \<Rightarrow> nat" where
  "hexValue h = (let n = of_char h :: nat in if n \<le> 57 then n - 48 else n - 87)"

definition unescapeHead :: "string \<Rightarrow> (char \<times> string) option" where
  "unescapeHead s =
     (case s of
        [] \<Rightarrow> None
      | c # rest \<Rightarrow>
          if c \<noteq> CHR 0x5C then Some (c, rest)
          else (case rest of
                  [] \<Rightarrow> None
                | e # rest' \<Rightarrow>
                    if e = CHR 0x22 then Some (char_of (34 :: nat), rest')
                    else if e = CHR 0x5C then Some (char_of (92 :: nat), rest')
                    else if e = CHR ''b'' then Some (char_of (8 :: nat), rest')
                    else if e = CHR ''t'' then Some (char_of (9 :: nat), rest')
                    else if e = CHR ''n'' then Some (char_of (10 :: nat), rest')
                    else if e = CHR ''f'' then Some (char_of (12 :: nat), rest')
                    else if e = CHR ''r'' then Some (char_of (13 :: nat), rest')
                    else (case rest' of
                            z1 # z2 # h1 # h2 # r \<Rightarrow>
                              Some (char_of (16 * hexValue h1 + hexValue h2), r)
                          | _ \<Rightarrow> None)))"

definition startsValue :: "string \<Rightarrow> bool" where
  "startsValue s \<longleftrightarrow> (case s of [] \<Rightarrow> False
                     | c # _ \<Rightarrow> c \<noteq> CHR '','' \<and> c \<noteq> CHR '']'' \<and> c \<noteq> CHR ''}'')"

definition renderEntry :: "comparator \<Rightarrow> string \<times> json \<Rightarrow> string" where
  "renderEntry lc = (\<lambda>(key, v). quoteJSONString key @ '':'' @ stableStringify lc v)"

definition entryEq :: "string \<times> json \<Rightarrow> string \<times> json \<Rightarrow> bool" where
  "entryEq e f \<longleftrightarrow> fst e = fst f \<and> jsonEq (snd e) (snd f)"

definition byKey :: "comparator \<Rightarrow> string \<times> json \<Rightarrow> string \<times> json \<Rightarrow> int" where
  "byKey lc = (\<lambda>l r. lc (fst l) (fst r))"

definition amountAsString :: "string \<times> json \<Rightarrow> string \<times> json" where
  "amountAsString = (\<lambda>(k, v). if k = ''amount'' then (k, JString ''1'') else (k, v))"


section \<open>A small world for concrete runs\<close>

text \<open>
  The default lock settings of src/config/env.ts, and a database in the shape the seed
  script leaves: one asset, its treasury wallet holding 500, and one user, Alice, whose
  wallet holds 1000.
\<close>

definition exampleEnv :: Env where
  "exampleEnv = \<lparr> distributedLockTtlMs = 5000, distributedLockRetryCount = 3,
                  distributedLockRetryDelayMs = 50 \<rparr>"

definition exampleDatabase :: Database where
  "exampleDatabase =
     \<lparr> users = [\<lparr>u_id = ''alice'', u_email = ''alice@example.com''\<rparr>],
       assetTypes = [\<lparr>a_id = ''gold'', a_code = ''GOLD_COINS'', a_name = ''Gold Coins''\<rparr>],
       wallets =
         [\<lparr>w_id = ''w-treasury'', w_userId = None, w_ownerType = SYSTEM,
            w_systemCode = Some ''TREASURY'', w_assetTypeId = ''gold'', w_version = 0\<rparr>,
          \<lparr>w_id = ''w-alice'', w_userId = Some ''alice'', w_ownerType = USER,
            w_systemCode = None, w_assetTypeId = ''gold'', w_version = 0\<rparr>],
       transactions = [],
       ledgerEntries =
         [\<lparr>le_transactionId = ''seed-1'', le_walletId = ''w-treasury'',
            le_assetTypeId = ''gold'', le_entryType = CREDIT, le_amount = 500\<rparr>,
          \<lparr>le_transactionId = ''seed-2'', le_walletId = ''w-alice'',
            le_assetTypeId = ''gold'', le_entryType = CREDIT, le_amount = 1000\<rparr>] \<rparr>"

definition exampleWorld :: World where
  "exampleWorld = \<lparr> database = exampleDatabase, cache = Map.empty, locks = Map.empty \<rparr>"

definition exampleRequest :: "int \<Rightarrow> WalletMutationRequest" where
  "exampleRequest amount =
     \<lparr> rq_userId = ''alice'', rq_assetCode = ''gold_coins'', rq_amount = amount,
       rq_idempotencyKey = ''key-1'', rq_requestFingerprint = ''fingerprint-1'' \<rparr>"


text \<open>
  The body stored for a SPEND of 50 by Alice, and the world after that SPEND once the
  cached response has expired.
\<close>

definition storedBody :: WalletMutationPayload where
  "storedBody = SuccessPayload
     \<lparr> sp_transactionId = ''tx-1'', sp_idempotencyKey = ''key-1'', sp_operation = ''spend'',
       sp_userId = ''alice'', sp_assetCode = ''GOLD_COINS'', sp_amount = ''50'',
       sp_balance = ''950'', sp_fromWalletId = ''w-alice'', sp_toWalletId = ''w-treasury'',
       sp_createdAt = ''2026-01-01T00:00:00.000Z'' \<rparr>"

definition worldAfterSpend :: World where
  "worldAfterSpend =
     (snd (executeMutation codePointCompare exampleEnv ''token-1'' ''tx-1''
             ''2026-01-01T00:00:00.000Z'' SPEND (exampleRequest 50) exampleWorld))
       \<lparr> cache := Map.empty \<rparr>"

text \<open>The example database with a second asset, for which Alice's wallet has no entries.\<close>

definition twoAssetDatabase :: Database where
  "twoAssetDatabase =
     exampleDatabase
       \<lparr> assetTypes := assetTypes exampleDatabase
            @ [\<lparr>a_id = ''diamond'', a_code = ''DIAMONDS'', a_name = ''Diamonds''\<rparr>],
         wallets := wallets exampleDatabase
            @ [\<lparr>w_id = ''w-alice-diamonds'', w_userId = Some ''alice'', w_ownerType = USER,
                 w_systemCode = None, w_assetTypeId = ''diamond'', w_version = 0\<rparr>] \<rparr>"

text \<open>
  Two keys that differ by a soft hyphen, \<open>userId\<close> and \<open>user\u00adId\<close>, and a body with
  both, listed in either order.
\<close>

definition softKey :: string where
  "softKey = ''user'' @ [CHR 0xAD] @ ''Id''"

definition tiedBody :: json where
  "tiedBody = JObject [(''userId'', JString ''alice''), (softKey, JString ''bob'')]"

definition tiedBodyReordered :: json where
  "tiedBodyReordered = JObject [(softKey, JString ''bob''), (''userId'', JString ''alice'')]"

text \<open>A topup request as it reaches the middleware, with a query string on its URL.\<close>

definition exampleHttpRequest :: Request where
  "exampleHttpRequest =
     \<lparr> req_method = ''POST'', req_originalUrl = ''/wallet/topup?trace=1'',
       req_idempotencyKey = Some ''key-1'', req_body = None \<rparr>"


section \<open>Sorting and de-duplication\<close>

lemma set_foldl_setAdd: "set (foldl setAdd acc xs) = set acc \<union> set xs"
  by (induction xs arbitrary: acc) (auto simp: setAdd_def)

lemma distinct_foldl_setAdd: "distinct acc \<Longrightarrow> distinct (foldl setAdd acc xs)"
  by (induction xs arbitrary: acc) (auto simp: setAdd_def)

lemma set_newSet: "set (newSet xs) = set xs"
  by (simp add: newSet_def set_foldl_setAdd)

lemma distinct_newSet: "distinct (newSet xs)"
  by (simp add: newSet_def distinct_foldl_setAdd)

lemma sortBy_Nil: "sortBy cmp [] = []"
  by (simp add: sortBy_def)

lemma sortBy_Cons: "sortBy cmp (x # xs) = insertBy cmp x (sortBy cmp xs)"
  by (simp add: sortBy_def)

lemma set_insertBy: "set (insertBy cmp x ys) = insert x (set ys)"
  by (induction ys) auto

lemma set_sortBy: "set (sortBy cmp xs) = set xs"
  by (induction xs) (simp_all add: sortBy_Nil sortBy_Cons set_insertBy)

lemma length_insertBy: "length (insertBy cmp x ys) = Suc (length ys)"
  by (induction ys) auto

lemma length_sortBy: "length (sortBy cmp xs) = length xs"
  by (induction xs) (simp_all add: sortBy_Nil sortBy_Cons length_insertBy)

lemma distinct_insertBy: "distinct ys \<Longrightarrow> x \<notin> set ys \<Longrightarrow> distinct (insertBy cmp x ys)"
  by (induction ys) (auto simp: set_insertBy)

lemma distinct_sortBy: "distinct xs \<Longrightarrow> distinct (sortBy cmp xs)"
  by (induction xs) (simp_all add: sortBy_Nil sortBy_Cons distinct_insertBy set_sortBy)

text \<open>
  A comparator sorts a set of elements when it is total and transitive on it, which
  ECMAScript asks of every comparator handed to \<open>sort\<close>.
\<close>

lemma sorted_insertBy:
  assumes total: "\<forall>a\<in>S. \<forall>b\<in>S. cmp a b \<le> 0 \<or> cmp b a \<le> 0"
    and trans: "\<forall>a\<in>S. \<forall>b\<in>S. \<forall>c\<in>S. cmp a b \<le> 0 \<longrightarrow> cmp b c \<le> 0 \<longrightarrow> cmp a c \<le> 0"
    and "x \<in> S" and "set ys \<subseteq> S" and "sorted_wrt (\<lambda>a b. cmp a b \<le> 0) ys"
  shows "sorted_wrt (\<lambda>a b. cmp a b \<le> 0) (insertBy cmp x ys)"
  using assms(3-)
proof (induction ys)
  case Nil
  then show ?case by simp
next
  case (Cons y ys)
  show ?case
  proof (cases "cmp x y \<le> 0")
    case True
    have "cmp x z \<le> 0" if "z \<in> set ys" for z
    proof -
      have "cmp y z \<le> 0" using Cons.prems(3) that by simp
      moreover have "z \<in> S" "y \<in> S" using Cons.prems(2) that by auto
      ultimately show ?thesis using trans True Cons.prems(1) by blast
    qed
    with True Cons.prems(3) show ?thesis by simp
  next
    case False
    have yx: "cmp y x \<le> 0"
      using total False Cons.prems(1,2) by (metis list.set_intros(1) subsetD)
    have "sorted_wrt (\<lambda>a b. cmp a b \<le> 0) (insertBy cmp x ys)"
      using Cons by simp
    moreover have "\<forall>z\<in>set (insertBy cmp x ys). cmp y z \<le> 0"
      using yx Cons.prems(3) by (simp add: set_insertBy)
    ultimately show ?thesis using False by simp
  qed
qed

lemma sorted_sortBy:
  assumes total: "\<forall>a\<in>S. \<forall>b\<in>S. cmp a b \<le> 0 \<or> cmp b a \<le> 0"
    and trans: "\<forall>a\<in>S. \<forall>b\<in>S. \<forall>c\<in>S. cmp a b \<le> 0 \<longrightarrow> cmp b c \<le> 0 \<longrightarrow> cmp a c \<le> 0"
    and "set xs \<subseteq> S"
  shows "sorted_wrt (\<lambda>a b. cmp a b \<le> 0) (sortBy cmp xs)"
  using assms(3)
proof (induction xs)
  case Nil
  then show ?case by (simp add: sortBy_Nil)
next
  case (Cons x xs)
  then show ?case
    using sorted_insertBy [OF total trans, of x "sortBy cmp xs"]
    by (simp add: sortBy_Cons set_sortBy)
qed

lemma lexCompare_eq_0: "lexCompare as bs = 0 \<Longrightarrow> as = bs"
  by (induction as bs rule: lexCompare.induct) (auto split: if_splits)

lemma codePointCompare_eq_0: "codePointCompare l r = 0 \<Longrightarrow> l = r"
proof -
  assume "codePointCompare l r = 0"
  then have "map (of_char :: char \<Rightarrow> nat) l = map of_char r"
    by (simp add: codePointCompare_def lexCompare_eq_0)
  moreover have "inj (of_char :: char \<Rightarrow> nat)"
    by (rule injI) simp
  ultimately show "l = r"
    by (simp add: inj_map_eq_map)
qed

lemma sorted_wrt_distinct_strict:
  "distinct xs \<Longrightarrow> sorted_wrt P xs \<Longrightarrow> sorted_wrt (\<lambda>a b. P a b \<and> a \<noteq> b) xs"
  by (induction xs) auto

lemma set_sortUniqueWalletIds: "set (sortUniqueWalletIds lc ids) = set ids"
  by (simp add: sortUniqueWalletIds_def set_sortBy set_newSet)

lemma distinct_sortUniqueWalletIds: "distinct (sortUniqueWalletIds lc ids)"
  by (simp add: sortUniqueWalletIds_def distinct_sortBy distinct_newSet)

lemma sorted_sortUniqueWalletIds:
  assumes "\<forall>a\<in>set ids. \<forall>b\<in>set ids. lc a b \<le> 0 \<or> lc b a \<le> 0"
    and "\<forall>a\<in>set ids. \<forall>b\<in>set ids. \<forall>c\<in>set ids. lc a b \<le> 0 \<longrightarrow> lc b c \<le> 0 \<longrightarrow> lc a c \<le> 0"
  shows "sorted_wrt (\<lambda>a b. lc a b \<le> 0) (sortUniqueWalletIds lc ids)"
  unfolding sortUniqueWalletIds_def
  by (rule sorted_sortBy [OF assms]) (simp add: set_newSet)

text \<open>
  Claim C7, as the code has it. \<open>sortUniqueWalletIds\<close> returns the ids without
  duplicates, in ascending order of the host's \<open>localeCompare\<close> (taken total and
  transitive on the ids), and \<open>toWalletLockKeys\<close> is \<open>lock:wallet:{id}\<close> over exactly
  that list. The order is the code-point order whenever the host collation agrees with
  the code-point order on the ids given.
\<close>

theorem sortUniqueWalletIds_collation_order:
  assumes "\<forall>a\<in>set ids. \<forall>b\<in>set ids. lc a b \<le> 0 \<or> lc b a \<le> 0"
    and "\<forall>a\<in>set ids. \<forall>b\<in>set ids. \<forall>c\<in>set ids. lc a b \<le> 0 \<longrightarrow> lc b c \<le> 0 \<longrightarrow> lc a c \<le> 0"
  shows "set (sortUniqueWalletIds lc ids) = set ids
       \<and> distinct (sortUniqueWalletIds lc ids)
       \<and> sorted_wrt (\<lambda>a b. lc a b \<le> 0) (sortUniqueWalletIds lc ids)
       \<and> toWalletLockKeys lc ids
           = map (\<lambda>walletId. ''lock:wallet:'' @ walletId) (sortUniqueWalletIds lc ids)
       \<and> ((\<forall>a\<in>set ids. \<forall>b\<in>set ids. (lc a b \<le> 0) = (codePointCompare a b \<le> 0))
            \<longrightarrow> sorted_wrt (\<lambda>a b. codePointCompare a b < 0) (sortUniqueWalletIds lc ids))"
proof -
  let ?r = "sortUniqueWalletIds lc ids"
  have s: "sorted_wrt (\<lambda>a b. lc a b \<le> 0) ?r"
    by (rule sorted_sortUniqueWalletIds [OF assms])
  have d: "distinct ?r"
    by (rule distinct_sortUniqueWalletIds)
  have e: "set ?r = set ids"
    by (rule set_sortUniqueWalletIds)
  have cp: "sorted_wrt (\<lambda>a b. codePointCompare a b < 0) ?r"
    if agree: "\<forall>a\<in>set ids. \<forall>b\<in>set ids. (lc a b \<le> 0) = (codePointCompare a b \<le> 0)"
  proof -
    have "sorted_wrt (\<lambda>a b. lc a b \<le> 0 \<and> a \<noteq> b) ?r"
      by (rule sorted_wrt_distinct_strict [OF d s])
    then show ?thesis
    proof (rule sorted_wrt_mono_rel [rotated])
      fix a b
      assume "a \<in> set ?r" "b \<in> set ?r" "lc a b \<le> 0 \<and> a \<noteq> b"
      then have "codePointCompare a b \<le> 0" "a \<noteq> b"
        using agree e by auto
      then show "codePointCompare a b < 0"
        using codePointCompare_eq_0 [of a b] by force
    qed
  qed
  show ?thesis
    using s d e cp by (simp add: toWalletLockKeys_def)
qed

theorem sortUniqueWalletIds_collation_order_witness:
  "sortUniqueWalletIds codePointCompare [''wallet-b'', ''wallet-a'', ''wallet-b'']
     = [''wallet-a'', ''wallet-b'']
   \<and> toWalletLockKeys codePointCompare [''w2'', ''w1'', ''w1'']
     = [''lock:wallet:w1'', ''lock:wallet:w2'']
   \<and> sorted_wrt (\<lambda>a b. codePointCompare a b < 0)
       (sortUniqueWalletIds codePointCompare [''wallet-b'', ''wallet-a'', ''wallet-b''])"
proof -
  let ?ids = "[''wallet-b'', ''wallet-a'', ''wallet-b'']"
  have total: "\<forall>a\<in>set ?ids. \<forall>b\<in>set ?ids. codePointCompare a b \<le> 0 \<or> codePointCompare b a \<le> 0"
    by (simp add: codePointCompare_def)
  have trans: "\<forall>a\<in>set ?ids. \<forall>b\<in>set ?ids. \<forall>c\<in>set ?ids.
      codePointCompare a b \<le> 0 \<longrightarrow> codePointCompare b c \<le> 0 \<longrightarrow> codePointCompare a c \<le> 0"
    by (simp add: codePointCompare_def)
  have r: "sortUniqueWalletIds codePointCompare ?ids = [''wallet-a'', ''wallet-b'']"
    by code_simp
  have k: "toWalletLockKeys codePointCompare [''w2'', ''w1'', ''w1'']
     = [''lock:wallet:w1'', ''lock:wallet:w2'']"
    by code_simp
  show ?thesis
    using sortUniqueWalletIds_collation_order [OF total trans] r k by simp
qed

text \<open>
  Claim C7 as written, with the code-point order for every list of strings, fails
  where the host collation is not the code-point order: in the root collation the
  lower-case \<open>a\<close> sorts before the upper-case \<open>B\<close>, whose code point is the smaller.
\<close>

theorem sortUniqueWalletIds_not_code_point_order:
  "sortUniqueWalletIds localeCompareAscii [''B'', ''a''] = [''a'', ''B'']
   \<and> codePointCompare ''a'' ''B'' > 0"
proof -
  have r: "sortUniqueWalletIds localeCompareAscii [''B'', ''a''] = [''a'', ''B'']"
    by code_simp
  have c: "codePointCompare ''a'' ''B'' > 0"
    by (simp add: codePointCompare_def)
  show ?thesis
    using r c by simp
qed


section \<open>Distributed lock: bounded retry\<close>








section \<open>The mutation engine\<close>

subsection \<open>Inserting the transaction row\<close>

lemma transaction_create_live:
  "transaction_create \<lparr> tx_database = db, tx_aborted = False \<rparr> row =
     (if t_amount row < - BIGINT_MAX - 1 \<or> BIGINT_MAX < t_amount row
      then (Inl (OtherError ''value out of range for type bigint''),
            \<lparr> tx_database = db, tx_aborted = True \<rparr>)
      else if t_amount row \<le> 0
      then (Inl (OtherError ''transactions_amount_positive_chk''),
            \<lparr> tx_database = db, tx_aborted = True \<rparr>)
      else if \<not> freshFor db (t_id row) (t_idempotencyKey row)
      then (Inl (PrismaClientKnownRequestError ''P2002''),
            \<lparr> tx_database = db, tx_aborted = True \<rparr>)
      else (Inr row,
            \<lparr> tx_database = db\<lparr>transactions := transactions db @ [row]\<rparr>,
              tx_aborted = False \<rparr>))"
  by (auto simp: transaction_create_def freshFor_def)

lemma processingRow_sel [simp]:
  "t_id (processingRow ty input a src dst newId now) = newId"
  "t_idempotencyKey (processingRow ty input a src dst newId now) = rq_idempotencyKey input"
  "t_amount (processingRow ty input a src dst newId now) = rq_amount input"
  "t_createdAt (processingRow ty input a src dst newId now) = now"
  by (simp_all add: processingRow_def)

text \<open>
  In a transaction that has just begun, \<open>createOrReplayTransaction\<close> has four outcomes.
  After a unique violation the lookup of the existing row is sent into the aborted
  transaction, so that none of the branches behind the lookup is taken.
\<close>

lemma createOrReplay_live:
  "createOrReplayTransaction \<lparr> tx_database = db, tx_aborted = False \<rparr> ty input a src dst
       newId now =
     (if rq_amount input < - BIGINT_MAX - 1 \<or> BIGINT_MAX < rq_amount input
      then Inl (OtherError ''value out of range for type bigint'')
      else if rq_amount input \<le> 0
      then Inl (OtherError ''transactions_amount_positive_chk'')
      else if \<not> freshFor db newId (rq_idempotencyKey input)
      then Inl inFailedSqlTransaction
      else Inr (Created newId now,
                \<lparr> tx_database = db\<lparr>transactions := transactions db
                                      @ [processingRow ty input a src dst newId now]\<rparr>,
                  tx_aborted = False \<rparr>))"
  by (simp add: createOrReplayTransaction_def transaction_create_live
        transaction_findUnique_def)

subsection \<open>What the version bump leaves alone\<close>

lemma wallet_updateMany_preserves:
  "ledgerEntries (fst (wallet_updateMany db i v)) = ledgerEntries db"
  "transactions (fst (wallet_updateMany db i v)) = transactions db"
  by (simp_all add: wallet_updateMany_def)

lemma bumpLoop_preserves:
  "ledgerEntries (fst (bumpLoop db ws u)) = ledgerEntries db
   \<and> transactions (fst (bumpLoop db ws u)) = transactions db"
proof (induction ws arbitrary: db u)
  case Nil
  then show ?case by simp
next
  case (Cons w ws)
  obtain db' c where step: "wallet_updateMany db (fst w) (snd w) = (db', c)"
    by (cases "wallet_updateMany db (fst w) (snd w)")
  then have "ledgerEntries db' = ledgerEntries db" "transactions db' = transactions db"
    using wallet_updateMany_preserves [of db "fst w" "snd w"] by simp_all
  with Cons.IH [of db' "u @ [(fst w, c)]"] step show ?case
    by simp
qed

lemma bumpWalletVersions_preserves:
  assumes "bumpWalletVersions db ws = Inr db'"
  shows "ledgerEntries db' = ledgerEntries db" and "transactions db' = transactions db"
proof -
  obtain d u where loop: "bumpLoop db ws [] = (d, u)"
    by (cases "bumpLoop db ws []")
  with assms have "db' = d"
    by (auto simp: bumpWalletVersions_def split: sum.splits)
  with loop bumpLoop_preserves [of db ws "[]"]
  show "ledgerEntries db' = ledgerEntries db" and "transactions db' = transactions db"
    by simp_all
qed

subsection \<open>The transaction body on a fresh key\<close>

lemma lockWallets_transactions [simp]:
  "lockWallets lc (db\<lparr>transactions := ts\<rparr>) ids = lockWallets lc db ids"
  by (simp add: lockWallets_def)

lemma getWalletBalance_transactions [simp]:
  "getWalletBalance (db\<lparr>transactions := ts\<rparr>) w a = getWalletBalance db w a"
  by (simp add: getWalletBalance_def)

lemma transaction_update_fresh:
  assumes "freshFor db newId key" and "t_id row = newId"
  shows "transactions (transaction_update (db\<lparr>transactions := transactions db @ [row]\<rparr>) newId f)
           = transactions db @ [f row]"
proof -
  have "map (\<lambda>t. if t_id t = newId then f t else t) (transactions db) = transactions db"
    using assms(1) by (simp add: freshFor_def map_idI)
  with assms(2) show ?thesis
    by (simp add: transaction_update_def)
qed

lemma transaction_update_ledger [simp]:
  "ledgerEntries (transaction_update db i f) = ledgerEntries db"
  by (simp add: transaction_update_def)

lemma mutationTransaction_fresh:
  assumes "0 < rq_amount input" and "freshFor db newId (rq_idempotencyKey input)"
    and "rq_amount input \<le> BIGINT_MAX"
  shows "mutationTransaction lc ty input ctx src dst newId now db =
    (let db1 = db\<lparr>transactions := transactions db
                  @ [processingRow ty input (ctx_assetTypeId ctx) src dst newId now]\<rparr>
     in if length (lockWallets lc db [src, dst]) \<noteq> length (sortUniqueWalletIds lc [src, dst])
        then Inl (AppError 409 ''LOCKED_WALLET_MISMATCH''
                    ''Wallet set changed during transaction. Retry request.'')
        else if getWalletBalance db src (ctx_assetTypeId ctx) < rq_amount input
        then Inr (\<lparr>statusCode = 409, body = insufficientFundsBody, replayed = False\<rparr>,
                  transaction_update db1 newId markFailed)
        else case bumpWalletVersions
                    (ledgerEntry_createMany db1
                       [debitEntry newId src (ctx_assetTypeId ctx) (rq_amount input),
                        creditEntry newId dst (ctx_assetTypeId ctx) (rq_amount input)])
                    (lockWallets lc db [src, dst]) of
               Inl err \<Rightarrow> Inl err
             | Inr db3 \<Rightarrow>
                 Inr (\<lparr>statusCode = 200,
                       body = successBody ty input ctx newId src dst now
                                (getWalletBalance db3 (ctx_userWalletId ctx) (ctx_assetTypeId ctx)),
                       replayed = False\<rparr>,
                      transaction_update db3 newId
                        (markPosted (successBody ty input ctx newId src dst now
                           (getWalletBalance db3 (ctx_userWalletId ctx) (ctx_assetTypeId ctx))))))"
proof -
  have "createOrReplayTransaction \<lparr> tx_database = db, tx_aborted = False \<rparr> ty input
          (ctx_assetTypeId ctx) src dst newId now
          = Inr (Created newId now,
                 \<lparr> tx_database = db\<lparr>transactions := transactions db
                      @ [processingRow ty input (ctx_assetTypeId ctx) src dst newId now]\<rparr>,
                   tx_aborted = False \<rparr>)"
    using assms by (simp add: createOrReplay_live BIGINT_MAX_def)
  then show ?thesis
    by (simp add: mutationTransaction_def Let_def split: sum.splits)
qed

text \<open>Without a fresh id and key and an amount the column takes, the callback raises.\<close>

lemma mutationTransaction_raises:
  assumes "\<not> (0 < rq_amount input \<and> freshFor db newId (rq_idempotencyKey input)
               \<and> rq_amount input \<le> BIGINT_MAX)"
  shows "mutationTransaction lc ty input ctx src dst newId now db =
    Inl (if rq_amount input < - BIGINT_MAX - 1 \<or> BIGINT_MAX < rq_amount input
         then OtherError ''value out of range for type bigint''
         else if rq_amount input \<le> 0 then OtherError ''transactions_amount_positive_chk''
         else inFailedSqlTransaction)"
  using assms
  by (auto simp: mutationTransaction_def createOrReplay_live BIGINT_MAX_def)

subsection \<open>A run of \<open>executeMutation\<close> that is not a replay\<close>

lemma executeMutation_not_replayed:
  assumes run: "executeMutation lc env token newId now ty input world = (Inr result, world')"
    and fresh: "\<not> replayed result"
    and ctx: "resolveContext (database world) (rq_userId input) (rq_assetCode input) = Inr context"
  shows "idempotencyCache_get world (rq_idempotencyKey input) = None"
    and "0 < rq_amount input"
    and "freshFor (database world) newId (rq_idempotencyKey input)"
    and "mutationTransaction lc ty input context (sourceWalletIdOf ty context)
           (destinationWalletIdOf ty context) newId now (database world)
         = Inr (result, database world')"
    and "rq_amount input \<le> BIGINT_MAX"
proof -
  let ?src = "sourceWalletIdOf ty context" and ?dst = "destinationWalletIdOf ty context"
  show miss: "idempotencyCache_get world (rq_idempotencyKey input) = None"
    using run fresh by (auto simp: executeMutation_def split: option.splits if_splits)
  obtain out locks1 events where
    acq: "acquireWalletLocks redisLockClient env lc [?src, ?dst] token (locks world)
            = (out, locks1, events)"
    by (cases "acquireWalletLocks redisLockClient env lc [?src, ?dst] token (locks world)")
  from run miss ctx acq obtain h where h: "out = Inr h"
    by (cases out) (auto simp: executeMutation_def Let_def)
  show tx: "mutationTransaction lc ty input context ?src ?dst newId now (database world)
              = Inr (result, database world')"
    using run miss ctx acq h
    by (auto simp: executeMutation_def Let_def idempotencyCache_set_def split: sum.splits)
  have "0 < rq_amount input \<and> freshFor (database world) newId (rq_idempotencyKey input)
        \<and> rq_amount input \<le> BIGINT_MAX"
    using tx mutationTransaction_raises [where input = input and db = "database world"
      and newId = newId and lc = lc and ty = ty and ctx = "context" and src = ?src
      and dst = ?dst and now = now]
    by auto
  then show "0 < rq_amount input"
    and "freshFor (database world) newId (rq_idempotencyKey input)"
    and "rq_amount input \<le> BIGINT_MAX"
    by simp_all
qed

lemma executeMutation_reaches_transaction:
  assumes miss: "idempotencyCache_get world (rq_idempotencyKey input) = None"
    and ctx: "resolveContext (database world) (rq_userId input) (rq_assetCode input) = Inr context"
    and acq: "acquireWalletLocks redisLockClient env lc
                [sourceWalletIdOf ty context, destinationWalletIdOf ty context] token (locks world)
              = (Inr h, locks1, events)"
    and tx: "mutationTransaction lc ty input context (sourceWalletIdOf ty context)
               (destinationWalletIdOf ty context) newId now (database world) = Inr (result, db')"
  shows "fst (executeMutation lc env token newId now ty input world) = Inr result"
    and "database (snd (executeMutation lc env token newId now ty input world)) = db'"
    and "cache (snd (executeMutation lc env token newId now ty input world))
           (keyFor (rq_idempotencyKey input))
         = Some \<lparr> c_requestFingerprint = rq_requestFingerprint input,
                  c_statusCode = statusCode result, c_body = body result \<rparr>"
  using assms
  by (simp_all add: executeMutation_def Let_def idempotencyCache_set_def)

lemma posted_run:
  assumes run: "executeMutation lc env token newId now ty input world = (Inr result, world')"
    and fresh: "\<not> replayed result"
    and ctx: "resolveContext (database world) (rq_userId input) (rq_assetCode input) = Inr context"
    and ok: "statusCode result = 200"
  shows "rq_amount input
           \<le> getWalletBalance (database world) (sourceWalletIdOf ty context) (ctx_assetTypeId context)"
    and "ledgerEntries (database world') = ledgerEntries (database world)
           @ [debitEntry newId (sourceWalletIdOf ty context) (ctx_assetTypeId context)
                (rq_amount input),
              creditEntry newId (destinationWalletIdOf ty context) (ctx_assetTypeId context)
                (rq_amount input)]"
    and "transactions (database world') = transactions (database world)
           @ [markPosted (body result)
                (processingRow ty input (ctx_assetTypeId context) (sourceWalletIdOf ty context)
                   (destinationWalletIdOf ty context) newId now)]"
proof -
  let ?src = "sourceWalletIdOf ty context" and ?dst = "destinationWalletIdOf ty context"
  let ?db = "database world" and ?a = "ctx_assetTypeId context"
  let ?row = "processingRow ty input ?a ?src ?dst newId now"
  let ?db1 = "?db\<lparr>transactions := transactions ?db @ [?row]\<rparr>"
  let ?db2 = "ledgerEntry_createMany ?db1
                [debitEntry newId ?src ?a (rq_amount input),
                 creditEntry newId ?dst ?a (rq_amount input)]"
  note facts = executeMutation_not_replayed [OF run fresh ctx]
  have eq: "mutationTransaction lc ty input context ?src ?dst newId now ?db
              = Inr (result, database world')"
    by (rule facts(4))
  note unfolded = eq [unfolded mutationTransaction_fresh [OF facts(2,3,5)] Let_def]
  show le: "rq_amount input \<le> getWalletBalance ?db ?src ?a"
    using unfolded ok by (auto split: if_splits)
  from unfolded ok le obtain db3 where
    bump: "bumpWalletVersions ?db2 (lockWallets lc ?db [?src, ?dst]) = Inr db3"
    and res: "body result = successBody ty input context newId ?src ?dst now
                (getWalletBalance db3 (ctx_userWalletId context) ?a)"
    and db': "database world' = transaction_update db3 newId (markPosted (body result))"
    by (auto split: if_splits sum.splits)
  note keep = bumpWalletVersions_preserves [OF bump]
  show "ledgerEntries (database world') = ledgerEntries ?db
           @ [debitEntry newId ?src ?a (rq_amount input),
              creditEntry newId ?dst ?a (rq_amount input)]"
    using db' keep(1) by (simp add: ledgerEntry_createMany_def)
  have "db3\<lparr>transactions := transactions ?db @ [?row]\<rparr> = db3"
    using keep(2) by (simp add: ledgerEntry_createMany_def)
  then have "transaction_update db3 newId (markPosted (body result))
        = transaction_update (db3\<lparr>transactions := transactions ?db @ [?row]\<rparr>) newId
            (markPosted (body result))"
    by simp
  also have "transactions \<dots> = transactions ?db @ [markPosted (body result) ?row]"
    using facts(3) keep(2)
    by (simp add: transaction_update_def freshFor_def map_idI)
  finally show "transactions (database world') = transactions ?db
           @ [markPosted (body result) ?row]"
    using db' by simp
qed

lemma failed_run:
  assumes run: "executeMutation lc env token newId now ty input world = (Inr result, world')"
    and fresh: "\<not> replayed result"
    and ctx: "resolveContext (database world) (rq_userId input) (rq_assetCode input) = Inr context"
    and ko: "statusCode result \<noteq> 200"
  shows "getWalletBalance (database world) (sourceWalletIdOf ty context) (ctx_assetTypeId context)
           < rq_amount input"
    and "result = \<lparr>statusCode = 409, body = insufficientFundsBody, replayed = False\<rparr>"
    and "ledgerEntries (database world') = ledgerEntries (database world)"
    and "transactions (database world') = transactions (database world)
           @ [markFailed
                (processingRow ty input (ctx_assetTypeId context) (sourceWalletIdOf ty context)
                   (destinationWalletIdOf ty context) newId now)]"
proof -
  let ?src = "sourceWalletIdOf ty context" and ?dst = "destinationWalletIdOf ty context"
  let ?db = "database world" and ?a = "ctx_assetTypeId context"
  let ?row = "processingRow ty input ?a ?src ?dst newId now"
  note facts = executeMutation_not_replayed [OF run fresh ctx]
  note unfolded = facts(4) [unfolded mutationTransaction_fresh [OF facts(2,3,5)] Let_def]
  show lt: "getWalletBalance ?db ?src ?a < rq_amount input"
    using unfolded ko by (auto split: if_splits sum.splits)
  from unfolded lt show "result = \<lparr>statusCode = 409, body = insufficientFundsBody, replayed = False\<rparr>"
    by (auto split: if_splits)
  from unfolded lt have db': "database world'
      = transaction_update (?db\<lparr>transactions := transactions ?db @ [?row]\<rparr>) newId markFailed"
    by (auto split: if_splits)
  then show "ledgerEntries (database world') = ledgerEntries ?db"
    by simp
  show "transactions (database world') = transactions ?db @ [markFailed ?row]"
    using db' transaction_update_fresh [OF facts(3), of ?row markFailed] by simp
qed


section \<open>Claims about the mutation engine\<close>

lemma freshFor_no_entries:
  assumes "freshFor db newId key"
    and "\<forall>le\<in>set (ledgerEntries db). \<exists>t\<in>set (transactions db). t_id t = le_transactionId le"
  shows "filter (\<lambda>le. le_transactionId le = newId) (ledgerEntries db) = []"
  using assms by (auto simp: freshFor_def filter_empty_conv)

text \<open>
  Claim C1. A run of \<open>executeMutation\<close> that ends with status code 200 and is not a
  replay appends exactly two ledger entries: a DEBIT of the request amount on the source
  wallet and a CREDIT of the same amount on the destination wallet, both with the id of
  the transaction row it inserted and with the asset of the request. That row is left
  POSTED with response code 200. Where every earlier entry refers to an existing
  transaction (the foreign key of the schema), these two are all the entries of the
  transaction.
\<close>

theorem posted_mutation_writes_two_entries:
  assumes "executeMutation lc env token newId now ty input world = (Inr result, world')"
    and "statusCode result = 200"
    and "\<not> replayed result"
    and "resolveContext (database world) (rq_userId input) (rq_assetCode input) = Inr context"
  shows "ledgerEntries (database world') = ledgerEntries (database world)
           @ [\<lparr> le_transactionId = newId,
                 le_walletId = sourceWalletIdOf ty context,
                 le_assetTypeId = ctx_assetTypeId context,
                 le_entryType = DEBIT,
                 le_amount = rq_amount input \<rparr>,
              \<lparr> le_transactionId = newId,
                 le_walletId = destinationWalletIdOf ty context,
                 le_assetTypeId = ctx_assetTypeId context,
                 le_entryType = CREDIT,
                 le_amount = rq_amount input \<rparr>]
       \<and> (\<exists>t. transactions (database world') = transactions (database world) @ [t]
              \<and> t_id t = newId \<and> t_status t = POSTED \<and> t_responseCode t = Some 200
              \<and> t_amount t = rq_amount input \<and> t_assetTypeId t = ctx_assetTypeId context
              \<and> t_sourceWalletId t = sourceWalletIdOf ty context
              \<and> t_destinationWalletId t = destinationWalletIdOf ty context)
       \<and> ((\<forall>le\<in>set (ledgerEntries (database world)).
              \<exists>t\<in>set (transactions (database world)). t_id t = le_transactionId le)
            \<longrightarrow> filter (\<lambda>le. le_transactionId le = newId) (ledgerEntries (database world'))
                = [\<lparr> le_transactionId = newId,
                      le_walletId = sourceWalletIdOf ty context,
                      le_assetTypeId = ctx_assetTypeId context,
                      le_entryType = DEBIT,
                      le_amount = rq_amount input \<rparr>,
                   \<lparr> le_transactionId = newId,
                      le_walletId = destinationWalletIdOf ty context,
                      le_assetTypeId = ctx_assetTypeId context,
                      le_entryType = CREDIT,
                      le_amount = rq_amount input \<rparr>])"
proof -
  note posted = posted_run [OF assms(1,3,4,2)]
  note facts = executeMutation_not_replayed [OF assms(1,3,4)]
  have entries: "ledgerEntries (database world') = ledgerEntries (database world)
           @ [\<lparr> le_transactionId = newId, le_walletId = sourceWalletIdOf ty context,
                 le_assetTypeId = ctx_assetTypeId context, le_entryType = DEBIT,
                 le_amount = rq_amount input \<rparr>,
              \<lparr> le_transactionId = newId, le_walletId = destinationWalletIdOf ty context,
                 le_assetTypeId = ctx_assetTypeId context, le_entryType = CREDIT,
                 le_amount = rq_amount input \<rparr>]"
    using posted(2) by (simp add: debitEntry_def creditEntry_def)
  have row: "\<exists>t. transactions (database world') = transactions (database world) @ [t]
              \<and> t_id t = newId \<and> t_status t = POSTED \<and> t_responseCode t = Some 200
              \<and> t_amount t = rq_amount input \<and> t_assetTypeId t = ctx_assetTypeId context
              \<and> t_sourceWalletId t = sourceWalletIdOf ty context
              \<and> t_destinationWalletId t = destinationWalletIdOf ty context"
    using posted(3) by (simp add: markPosted_def processingRow_def)
  have only: "filter (\<lambda>le. le_transactionId le = newId) (ledgerEntries (database world)) = []"
    if "\<forall>le\<in>set (ledgerEntries (database world)).
          \<exists>t\<in>set (transactions (database world)). t_id t = le_transactionId le"
    using freshFor_no_entries [OF facts(3) that] .
  show ?thesis
    using entries row only by simp
qed

theorem posted_mutation_writes_two_entries_witness:
  "ledgerEntries (database (snd (executeMutation codePointCompare exampleEnv ''token-1'' ''tx-1''
       ''2026-01-01T00:00:00.000Z'' SPEND (exampleRequest 50) exampleWorld)))
     = ledgerEntries exampleDatabase
       @ [\<lparr> le_transactionId = ''tx-1'', le_walletId = ''w-alice'', le_assetTypeId = ''gold'',
             le_entryType = DEBIT, le_amount = 50 \<rparr>,
          \<lparr> le_transactionId = ''tx-1'', le_walletId = ''w-treasury'', le_assetTypeId = ''gold'',
             le_entryType = CREDIT, le_amount = 50 \<rparr>]"
proof -
  let ?run = "executeMutation codePointCompare exampleEnv ''token-1'' ''tx-1''
       ''2026-01-01T00:00:00.000Z'' SPEND (exampleRequest 50) exampleWorld"
  let ?result = "\<lparr> statusCode = 200,
      body = SuccessPayload
        \<lparr> sp_transactionId = ''tx-1'', sp_idempotencyKey = ''key-1'', sp_operation = ''spend'',
          sp_userId = ''alice'', sp_assetCode = ''GOLD_COINS'', sp_amount = ''50'',
          sp_balance = ''950'', sp_fromWalletId = ''w-alice'', sp_toWalletId = ''w-treasury'',
          sp_createdAt = ''2026-01-01T00:00:00.000Z'' \<rparr>,
      replayed = False \<rparr>"
  let ?ctx = "\<lparr> ctx_assetTypeId = ''gold'', ctx_assetCode = ''GOLD_COINS'',
      ctx_userWalletId = ''w-alice'', ctx_treasuryWalletId = ''w-treasury'' \<rparr>"
  have "fst ?run = Inr ?result"
    by code_simp
  then have run: "?run = (Inr ?result, snd ?run)"
    by (simp add: prod_eq_iff)
  have ctx: "resolveContext (database exampleWorld) (rq_userId (exampleRequest 50))
               (rq_assetCode (exampleRequest 50)) = Inr ?ctx"
    by code_simp
  have w: "database exampleWorld = exampleDatabase"
    by (simp add: exampleWorld_def)
  from posted_mutation_writes_two_entries [OF run _ _ ctx] w show ?thesis
    by (simp add: sourceWalletIdOf_def destinationWalletIdOf_def exampleRequest_def)
qed

text \<open>
  Claim C2. Take a mutation that reaches the balance check: the cache has no entry for
  the key, the context resolves, the wallet locks are acquired, the row is inserted (a
  positive amount that fits the \<open>BIGINT\<close> column, a fresh id and key) and both wallets
  are locked. If the derived balance of the source wallet is below the amount,
  \<open>executeMutation\<close> returns the 409 body \<open>INSUFFICIENT_FUNDS\<close>, leaves the row FAILED
  with that error code, response code 409 and the same body, and leaves the ledger as
  it was.
\<close>

theorem insufficient_funds_is_persisted:
  assumes "idempotencyCache_get world (rq_idempotencyKey input) = None"
    and "resolveContext (database world) (rq_userId input) (rq_assetCode input) = Inr context"
    and "acquireWalletLocks redisLockClient env lc
           [sourceWalletIdOf ty context, destinationWalletIdOf ty context] token (locks world)
         = (Inr handle, locks1, events)"
    and "0 < rq_amount input"
    and "rq_amount input \<le> BIGINT_MAX"
    and "freshFor (database world) newId (rq_idempotencyKey input)"
    and "length (lockWallets lc (database world)
                   [sourceWalletIdOf ty context, destinationWalletIdOf ty context])
         = length (sortUniqueWalletIds lc
                   [sourceWalletIdOf ty context, destinationWalletIdOf ty context])"
    and "getWalletBalance (database world) (sourceWalletIdOf ty context) (ctx_assetTypeId context)
         < rq_amount input"
  shows "fst (executeMutation lc env token newId now ty input world)
           = Inr \<lparr> statusCode = 409,
                   body = ErrorPayload ''INSUFFICIENT_FUNDS'' ''Insufficient wallet balance'',
                   replayed = False \<rparr>
       \<and> ledgerEntries (database (snd (executeMutation lc env token newId now ty input world)))
           = ledgerEntries (database world)
       \<and> (\<exists>t. transactions (database (snd (executeMutation lc env token newId now ty input world)))
                = transactions (database world) @ [t]
              \<and> t_id t = newId
              \<and> t_idempotencyKey t = rq_idempotencyKey input
              \<and> t_status t = FAILED
              \<and> t_errorCode t = Some ''INSUFFICIENT_FUNDS''
              \<and> t_responseCode t = Some 409
              \<and> t_responseBody t
                  = Some (ErrorPayload ''INSUFFICIENT_FUNDS'' ''Insufficient wallet balance''))"
proof -
  let ?src = "sourceWalletIdOf ty context" and ?dst = "destinationWalletIdOf ty context"
  let ?db = "database world"
  let ?row = "processingRow ty input (ctx_assetTypeId context) ?src ?dst newId now"
  let ?db' = "transaction_update (?db\<lparr>transactions := transactions ?db @ [?row]\<rparr>) newId markFailed"
  have tx: "mutationTransaction lc ty input context ?src ?dst newId now ?db
              = Inr (\<lparr>statusCode = 409, body = insufficientFundsBody, replayed = False\<rparr>, ?db')"
    using assms(7,8) by (simp add: mutationTransaction_fresh [OF assms(4,6,5)] Let_def)
  note reach = executeMutation_reaches_transaction [OF assms(1,2,3) tx]
  have rows: "transactions ?db' = transactions ?db @ [markFailed ?row]"
    using transaction_update_fresh [OF assms(6), of ?row markFailed] by simp
  show ?thesis
    using reach(1,2) rows
    by (simp add: insufficientFundsBody_def markFailed_def processingRow_def)
qed

theorem insufficient_funds_is_persisted_witness:
  "fst (executeMutation codePointCompare exampleEnv ''token-1'' ''tx-1''
          ''2026-01-01T00:00:00.000Z'' SPEND (exampleRequest 1001) exampleWorld)
     = Inr \<lparr> statusCode = 409,
             body = ErrorPayload ''INSUFFICIENT_FUNDS'' ''Insufficient wallet balance'',
             replayed = False \<rparr>
   \<and> ledgerEntries (database (snd (executeMutation codePointCompare exampleEnv ''token-1''
          ''tx-1'' ''2026-01-01T00:00:00.000Z'' SPEND (exampleRequest 1001) exampleWorld)))
     = ledgerEntries exampleDatabase"
proof -
  let ?input = "exampleRequest 1001"
  let ?ctx = "\<lparr> ctx_assetTypeId = ''gold'', ctx_assetCode = ''GOLD_COINS'',
      ctx_userWalletId = ''w-alice'', ctx_treasuryWalletId = ''w-treasury'' \<rparr>"
  let ?acq = "acquireWalletLocks redisLockClient exampleEnv codePointCompare
           [sourceWalletIdOf SPEND ?ctx, destinationWalletIdOf SPEND ?ctx] ''token-1''
           (locks exampleWorld)"
  have h1: "idempotencyCache_get exampleWorld (rq_idempotencyKey ?input) = None"
    by (simp add: idempotencyCache_get_def exampleWorld_def)
  have h2: "resolveContext (database exampleWorld) (rq_userId ?input) (rq_assetCode ?input)
              = Inr ?ctx"
    by code_simp
  have "fst ?acq = Inr \<lparr>h_acquiredKeys = [''lock:wallet:w-alice'', ''lock:wallet:w-treasury''],
                         h_token = ''token-1''\<rparr>"
    by code_simp
  then have h3: "?acq = (Inr \<lparr>h_acquiredKeys = [''lock:wallet:w-alice'', ''lock:wallet:w-treasury''],
                         h_token = ''token-1''\<rparr>, fst (snd ?acq), snd (snd ?acq))"
    by (simp add: prod_eq_iff)
  have h4: "0 < rq_amount ?input" "rq_amount ?input \<le> BIGINT_MAX"
    by (simp_all add: exampleRequest_def BIGINT_MAX_def)
  have h5: "freshFor (database exampleWorld) ''tx-1'' (rq_idempotencyKey ?input)"
    by (simp add: freshFor_def exampleWorld_def exampleDatabase_def)
  have h6: "length (lockWallets codePointCompare (database exampleWorld)
                   [sourceWalletIdOf SPEND ?ctx, destinationWalletIdOf SPEND ?ctx])
         = length (sortUniqueWalletIds codePointCompare
                   [sourceWalletIdOf SPEND ?ctx, destinationWalletIdOf SPEND ?ctx])"
    by code_simp
  have h7: "getWalletBalance (database exampleWorld) (sourceWalletIdOf SPEND ?ctx)
              (ctx_assetTypeId ?ctx) < rq_amount ?input"
    by code_simp
  have w: "database exampleWorld = exampleDatabase"
    by (simp add: exampleWorld_def)
  from insufficient_funds_is_persisted [OF h1 h2 h3 h4 h5 h6 h7] w show ?thesis
    by simp
qed

text \<open>
  An amount beyond the \<open>BIGINT\<close> column never reaches the balance check: the insert is
  refused, the callback raises and nothing is written.
\<close>

lemma amount_out_of_range_raises:
  assumes "idempotencyCache_get world (rq_idempotencyKey input) = None"
    and "resolveContext (database world) (rq_userId input) (rq_assetCode input) = Inr context"
    and "acquireWalletLocks redisLockClient env lc
           [sourceWalletIdOf ty context, destinationWalletIdOf ty context] token (locks world)
         = (Inr handle, locks1, events)"
    and "BIGINT_MAX < rq_amount input"
  shows "fst (executeMutation lc env token newId now ty input world)
           = Inl (OtherError ''value out of range for type bigint'')"
    and "database (snd (executeMutation lc env token newId now ty input world))
           = database world"
proof -
  have tx: "mutationTransaction lc ty input context (sourceWalletIdOf ty context)
              (destinationWalletIdOf ty context) newId now (database world)
              = Inl (OtherError ''value out of range for type bigint'')"
    using assms(4) by (simp add: mutationTransaction_raises)
  with assms(1,2,3)
  show "fst (executeMutation lc env token newId now ty input world)
           = Inl (OtherError ''value out of range for type bigint'')"
    and "database (snd (executeMutation lc env token newId now ty input world))
           = database world"
    by (simp_all add: executeMutation_def Let_def)
qed

text \<open>
  Claim C3 says what \<open>createOrReplayTransaction\<close> is written to do after a unique
  violation, and the code does not get there. The function works on the client of the
  database transaction that \<open>executeMutation\<close> has opened. The insert that meets the
  unique violation aborts that transaction, and the lookup of the existing row is the
  next statement of the same transaction: it fails with 25P02. So whenever the insert
  fails with P2002, whatever row holds the key, \<open>createOrReplayTransaction\<close> raises that
  error: no stored response is replayed, and neither of the two 409 errors is raised.
\<close>

theorem createOrReplayTransaction_unique_violation_raises:
  assumes "fst (transaction_create tx
                  (processingRow ty input assetTypeId sourceWalletId destinationWalletId
                     newId now))
           = Inl (PrismaClientKnownRequestError ''P2002'')"
  shows "createOrReplayTransaction tx ty input assetTypeId sourceWalletId destinationWalletId
           newId now
         = Inl (PrismaClientUnknownRequestError ''25P02'')"
proof -
  let ?row = "processingRow ty input assetTypeId sourceWalletId destinationWalletId newId now"
  from assms have "transaction_create tx ?row
      = (Inl (PrismaClientKnownRequestError ''P2002''), tx\<lparr>tx_aborted := True\<rparr>)"
    by (auto simp: transaction_create_def inFailedSqlTransaction_def split: if_splits)
  then show ?thesis
    by (simp add: createOrReplayTransaction_def transaction_findUnique_def
          inFailedSqlTransaction_def)
qed

text \<open>
  A SPEND of 50 has been executed and answered with 200, and its cache entry has
  expired. The table holds its row, POSTED with response code 200 and the stored body.
  The same request arrives again: the insert meets the unique violation, and the
  function raises 25P02.
\<close>

theorem createOrReplayTransaction_unique_violation_raises_witness:
  "transactions (database worldAfterSpend)
     = [markPosted storedBody
          (processingRow SPEND (exampleRequest 50) ''gold'' ''w-alice'' ''w-treasury'' ''tx-1''
             ''2026-01-01T00:00:00.000Z'')]
   \<and> createOrReplayTransaction
       \<lparr> tx_database = database worldAfterSpend, tx_aborted = False \<rparr>
       SPEND (exampleRequest 50) ''gold'' ''w-alice'' ''w-treasury'' ''tx-2''
       ''2026-01-02T00:00:00.000Z''
     = Inl (PrismaClientUnknownRequestError ''25P02'')"
proof -
  let ?tx = "\<lparr> tx_database = database worldAfterSpend, tx_aborted = False \<rparr>"
  have rows: "transactions (database worldAfterSpend)
     = [markPosted storedBody
          (processingRow SPEND (exampleRequest 50) ''gold'' ''w-alice'' ''w-treasury'' ''tx-1''
             ''2026-01-01T00:00:00.000Z'')]"
    by code_simp
  have violation: "fst (transaction_create ?tx
        (processingRow SPEND (exampleRequest 50) ''gold'' ''w-alice'' ''w-treasury'' ''tx-2''
           ''2026-01-02T00:00:00.000Z''))
      = Inl (PrismaClientKnownRequestError ''P2002'')"
    by (simp add: transaction_create_def rows exampleRequest_def processingRow_def
          markPosted_def BIGINT_MAX_def)
  from createOrReplayTransaction_unique_violation_raises [OF violation] rows show ?thesis
    by simp
qed

text \<open>
  The same for a whole request. A SPEND of 50 is executed and answered with 200. The
  request is sent again with the same key and fingerprint after its cache entry has
  expired: the second run raises 25P02 instead of replaying the stored response, and
  leaves the database as it was.
\<close>

lemma repeated_request_raises:
  "fst (executeMutation codePointCompare exampleEnv ''token-1'' ''tx-1''
          ''2026-01-01T00:00:00.000Z'' SPEND (exampleRequest 50) exampleWorld)
     = Inr \<lparr> statusCode = 200, body = storedBody, replayed = False \<rparr>
   \<and> fst (executeMutation codePointCompare exampleEnv ''token-2'' ''tx-2''
          ''2026-01-02T00:00:00.000Z'' SPEND (exampleRequest 50) worldAfterSpend)
     = Inl (PrismaClientUnknownRequestError ''25P02'')
   \<and> database (snd (executeMutation codePointCompare exampleEnv ''token-2'' ''tx-2''
          ''2026-01-02T00:00:00.000Z'' SPEND (exampleRequest 50) worldAfterSpend))
     = database worldAfterSpend"
proof -
  have first: "fst (executeMutation codePointCompare exampleEnv ''token-1'' ''tx-1''
          ''2026-01-01T00:00:00.000Z'' SPEND (exampleRequest 50) exampleWorld)
     = Inr \<lparr> statusCode = 200, body = storedBody, replayed = False \<rparr>"
    by code_simp
  have ctx: "resolveContext (database worldAfterSpend) (rq_userId (exampleRequest 50))
               (rq_assetCode (exampleRequest 50))
             = Inr \<lparr> ctx_assetTypeId = ''gold'', ctx_assetCode = ''GOLD_COINS'',
                     ctx_userWalletId = ''w-alice'', ctx_treasuryWalletId = ''w-treasury'' \<rparr>"
    by code_simp
  have second: "fst (executeMutation codePointCompare exampleEnv ''token-2'' ''tx-2''
          ''2026-01-02T00:00:00.000Z'' SPEND (exampleRequest 50) worldAfterSpend)
     = Inl (PrismaClientUnknownRequestError ''25P02'')"
    by code_simp
  have miss: "idempotencyCache_get worldAfterSpend (rq_idempotencyKey (exampleRequest 50)) = None"
    by (simp add: worldAfterSpend_def idempotencyCache_get_def)
  have "database (snd (executeMutation codePointCompare exampleEnv ''token-2'' ''tx-2''
          ''2026-01-02T00:00:00.000Z'' SPEND (exampleRequest 50) worldAfterSpend))
     = database worldAfterSpend"
    using miss ctx second
    by (auto simp: executeMutation_def Let_def split: prod.splits sum.splits)
  with first second show ?thesis
    by simp
qed

lemma resolveContext_Inr:
  assumes "resolveContext db userId assetCode = Inr context"
  shows "(\<exists>assetType\<in>set (assetTypes db).
            a_code assetType = toUpperCase assetCode
            \<and> a_id assetType = ctx_assetTypeId context
            \<and> a_code assetType = ctx_assetCode context)
       \<and> (\<exists>treasury\<in>set (wallets db).
            w_id treasury = ctx_treasuryWalletId context
            \<and> w_ownerType treasury = SYSTEM
            \<and> w_systemCode treasury = Some ''TREASURY''
            \<and> w_assetTypeId treasury = ctx_assetTypeId context)
       \<and> (\<exists>userWallet\<in>set (wallets db).
            w_id userWallet = ctx_userWalletId context
            \<and> w_ownerType userWallet = USER
            \<and> w_userId userWallet = Some userId
            \<and> w_assetTypeId userWallet = ctx_assetTypeId context)"
proof -
  from assms obtain a u t where
    a: "find (\<lambda>a. a_code a = toUpperCase assetCode) (assetTypes db) = Some a"
    and u: "find (\<lambda>w. w_ownerType w = USER \<and> w_userId w = Some userId
                      \<and> w_assetTypeId w = a_id a) (wallets db) = Some u"
    and t: "find (\<lambda>w. w_ownerType w = SYSTEM \<and> w_systemCode w = Some TREASURY_SYSTEM_CODE
                      \<and> w_assetTypeId w = a_id a) (wallets db) = Some t"
    and c: "context = \<lparr> ctx_assetTypeId = a_id a, ctx_assetCode = a_code a,
                        ctx_userWalletId = w_id u, ctx_treasuryWalletId = w_id t \<rparr>"
    by (auto simp: resolveContext_def Let_def split: option.splits)
  from a have "a \<in> set (assetTypes db)" "a_code a = toUpperCase assetCode"
    by (auto simp: find_Some_iff)
  moreover from u have "u \<in> set (wallets db)" "w_ownerType u = USER" "w_userId u = Some userId"
    "w_assetTypeId u = a_id a"
    by (auto simp: find_Some_iff)
  moreover from t have "t \<in> set (wallets db)" "w_ownerType t = SYSTEM"
    "w_systemCode t = Some ''TREASURY''" "w_assetTypeId t = a_id a"
    by (auto simp: find_Some_iff TREASURY_SYSTEM_CODE_def)
  ultimately show ?thesis
    using c by auto
qed

text \<open>
  Claim C5. In a run that is not a replay, the wallets come from \<open>resolveContext\<close>: the
  treasury wallet is a SYSTEM wallet with system code \<open>TREASURY\<close> for the requested
  asset, the other is the USER wallet of the request's user for that asset. The
  transaction row the run writes has the treasury wallet as source and the user wallet
  as destination for TOPUP and BONUS, and the user wallet as source and the treasury
  wallet as destination for SPEND.
\<close>

theorem counterparty_selection:
  assumes "executeMutation lc env token newId now ty input world = (Inr result, world')"
    and "\<not> replayed result"
    and "resolveContext (database world) (rq_userId input) (rq_assetCode input) = Inr context"
  shows "(\<exists>assetType\<in>set (assetTypes (database world)).
            a_code assetType = toUpperCase (rq_assetCode input)
            \<and> a_id assetType = ctx_assetTypeId context
            \<and> a_code assetType = ctx_assetCode context)
       \<and> (\<exists>treasury\<in>set (wallets (database world)).
            w_id treasury = ctx_treasuryWalletId context
            \<and> w_ownerType treasury = SYSTEM
            \<and> w_systemCode treasury = Some ''TREASURY''
            \<and> w_assetTypeId treasury = ctx_assetTypeId context)
       \<and> (\<exists>userWallet\<in>set (wallets (database world)).
            w_id userWallet = ctx_userWalletId context
            \<and> w_ownerType userWallet = USER
            \<and> w_userId userWallet = Some (rq_userId input)
            \<and> w_assetTypeId userWallet = ctx_assetTypeId context)
       \<and> (\<exists>t. transactions (database world') = transactions (database world) @ [t]
              \<and> t_id t = newId \<and> t_type t = ty
              \<and> t_assetTypeId t = ctx_assetTypeId context
              \<and> t_sourceWalletId t
                  = (case ty of TOPUP \<Rightarrow> ctx_treasuryWalletId context
                              | BONUS \<Rightarrow> ctx_treasuryWalletId context
                              | SPEND \<Rightarrow> ctx_userWalletId context)
              \<and> t_destinationWalletId t
                  = (case ty of TOPUP \<Rightarrow> ctx_userWalletId context
                              | BONUS \<Rightarrow> ctx_userWalletId context
                              | SPEND \<Rightarrow> ctx_treasuryWalletId context))"
proof -
  let ?row = "processingRow ty input (ctx_assetTypeId context) (sourceWalletIdOf ty context)
                (destinationWalletIdOf ty context) newId now"
  have "\<exists>f. transactions (database world') = transactions (database world) @ [f ?row]
           \<and> (f = markFailed \<or> f = markPosted (body result))"
  proof (cases "statusCode result = 200")
    case True
    from posted_run(3) [OF assms True] show ?thesis by blast
  next
    case False
    from failed_run(4) [OF assms False] show ?thesis by blast
  qed
  then obtain f where f: "transactions (database world') = transactions (database world) @ [f ?row]"
    "f = markFailed \<or> f = markPosted (body result)"
    by blast
  have "t_id (f ?row) = newId \<and> t_type (f ?row) = ty
        \<and> t_assetTypeId (f ?row) = ctx_assetTypeId context
        \<and> t_sourceWalletId (f ?row) = sourceWalletIdOf ty context
        \<and> t_destinationWalletId (f ?row) = destinationWalletIdOf ty context"
    using f(2) by (auto simp: markFailed_def markPosted_def processingRow_def)
  moreover have "sourceWalletIdOf ty context
      = (case ty of TOPUP \<Rightarrow> ctx_treasuryWalletId context
                  | BONUS \<Rightarrow> ctx_treasuryWalletId context
                  | SPEND \<Rightarrow> ctx_userWalletId context)"
    "destinationWalletIdOf ty context
      = (case ty of TOPUP \<Rightarrow> ctx_userWalletId context
                  | BONUS \<Rightarrow> ctx_userWalletId context
                  | SPEND \<Rightarrow> ctx_treasuryWalletId context)"
    by (cases ty; simp add: sourceWalletIdOf_def destinationWalletIdOf_def)+
  ultimately have row: "\<exists>t. transactions (database world') = transactions (database world) @ [t]
              \<and> t_id t = newId \<and> t_type t = ty
              \<and> t_assetTypeId t = ctx_assetTypeId context
              \<and> t_sourceWalletId t
                  = (case ty of TOPUP \<Rightarrow> ctx_treasuryWalletId context
                              | BONUS \<Rightarrow> ctx_treasuryWalletId context
                              | SPEND \<Rightarrow> ctx_userWalletId context)
              \<and> t_destinationWalletId t
                  = (case ty of TOPUP \<Rightarrow> ctx_userWalletId context
                              | BONUS \<Rightarrow> ctx_userWalletId context
                              | SPEND \<Rightarrow> ctx_treasuryWalletId context)"
    using f(1) by auto
  from resolveContext_Inr [OF assms(3)] row show ?thesis
    by blast
qed

theorem counterparty_selection_witness:
  "\<exists>t. transactions (database (snd (executeMutation codePointCompare exampleEnv ''token-1''
          ''tx-1'' ''2026-01-01T00:00:00.000Z'' TOPUP (exampleRequest 100) exampleWorld)))
        = [t]
      \<and> t_type t = TOPUP
      \<and> t_sourceWalletId t = ''w-treasury''
      \<and> t_destinationWalletId t = ''w-alice''"
proof -
  let ?run = "executeMutation codePointCompare exampleEnv ''token-1'' ''tx-1''
       ''2026-01-01T00:00:00.000Z'' TOPUP (exampleRequest 100) exampleWorld"
  let ?result = "\<lparr> statusCode = 200,
      body = SuccessPayload
        \<lparr> sp_transactionId = ''tx-1'', sp_idempotencyKey = ''key-1'', sp_operation = ''topup'',
          sp_userId = ''alice'', sp_assetCode = ''GOLD_COINS'', sp_amount = ''100'',
          sp_balance = ''1100'', sp_fromWalletId = ''w-treasury'', sp_toWalletId = ''w-alice'',
          sp_createdAt = ''2026-01-01T00:00:00.000Z'' \<rparr>,
      replayed = False \<rparr>"
  let ?ctx = "\<lparr> ctx_assetTypeId = ''gold'', ctx_assetCode = ''GOLD_COINS'',
      ctx_userWalletId = ''w-alice'', ctx_treasuryWalletId = ''w-treasury'' \<rparr>"
  have "fst ?run = Inr ?result"
    by code_simp
  then have run: "?run = (Inr ?result, snd ?run)"
    by (simp add: prod_eq_iff)
  have ctx: "resolveContext (database exampleWorld) (rq_userId (exampleRequest 100))
               (rq_assetCode (exampleRequest 100)) = Inr ?ctx"
    by code_simp
  have w: "transactions (database exampleWorld) = []"
    by (simp add: exampleWorld_def exampleDatabase_def)
  from counterparty_selection [OF run _ ctx] w
  have "\<exists>t. transactions (database (snd ?run)) = [t] \<and> t_id t = ''tx-1'' \<and> t_type t = TOPUP
          \<and> t_assetTypeId t = ''gold'' \<and> t_sourceWalletId t = ''w-treasury''
          \<and> t_destinationWalletId t = ''w-alice''"
    by simp
  then show ?thesis
    by blast
qed

lemma getWalletBalance_posting:
  assumes "ledgerEntries db' = ledgerEntries db
             @ [debitEntry tid src a amount, creditEntry tid dst a amount]"
  shows "getWalletBalance db' w b
           = getWalletBalance db w b
             + (if w = src \<and> b = a then - amount else 0)
             + (if w = dst \<and> b = a then amount else 0)"
  using assms
  by (simp add: getWalletBalance_def debitEntry_def creditEntry_def signedAmount_def)

text \<open>
  Claim C8. The balance check does not look at the mutation type. A run that is not a
  replay ends with 200 exactly when the derived balance of its source wallet covers the
  amount, and otherwise with the 409 body \<open>INSUFFICIENT_FUNDS\<close> and an unchanged ledger;
  for TOPUP and BONUS the source is the treasury wallet. No wallet, of a user or of the
  system, is debited below zero: a wallet whose derived balance went down is the source
  wallet, and its new balance is not negative.
\<close>

theorem source_balance_check_is_uniform:
  assumes "executeMutation lc env token newId now ty input world = (Inr result, world')"
    and "\<not> replayed result"
    and "resolveContext (database world) (rq_userId input) (rq_assetCode input) = Inr context"
  shows "(statusCode result = 200
            \<longleftrightarrow> rq_amount input
                 \<le> getWalletBalance (database world) (sourceWalletIdOf ty context)
                     (ctx_assetTypeId context))
       \<and> (statusCode result \<noteq> 200 \<longrightarrow>
            result = \<lparr> statusCode = 409,
                       body = ErrorPayload ''INSUFFICIENT_FUNDS'' ''Insufficient wallet balance'',
                       replayed = False \<rparr>
            \<and> ledgerEntries (database world') = ledgerEntries (database world))
       \<and> (ty \<noteq> SPEND \<longrightarrow> sourceWalletIdOf ty context = ctx_treasuryWalletId context)
       \<and> (\<forall>walletId assetTypeId.
            getWalletBalance (database world') walletId assetTypeId
              < getWalletBalance (database world) walletId assetTypeId
            \<longrightarrow> walletId = sourceWalletIdOf ty context
                \<and> 0 \<le> getWalletBalance (database world') walletId assetTypeId)"
proof (cases "statusCode result = 200")
  case True
  note posted = posted_run [OF assms True]
  note facts = executeMutation_not_replayed [OF assms]
  note bal = getWalletBalance_posting [OF posted(2)]
  have "walletId = sourceWalletIdOf ty context
        \<and> 0 \<le> getWalletBalance (database world') walletId assetTypeId"
    if "getWalletBalance (database world') walletId assetTypeId
          < getWalletBalance (database world) walletId assetTypeId"
    for walletId assetTypeId
    using that posted(1) facts(2) bal [of walletId assetTypeId]
    by (auto split: if_splits)
  with True posted(1) show ?thesis
    by (simp add: sourceWalletIdOf_def)
next
  case False
  note failed = failed_run [OF assms False]
  from False failed show ?thesis
    by (simp add: sourceWalletIdOf_def insufficientFundsBody_def getWalletBalance_def)
qed

theorem source_balance_check_is_uniform_witness:
  "fst (executeMutation codePointCompare exampleEnv ''token-1'' ''tx-1''
          ''2026-01-01T00:00:00.000Z'' TOPUP (exampleRequest 501) exampleWorld)
     = Inr \<lparr> statusCode = 409,
             body = ErrorPayload ''INSUFFICIENT_FUNDS'' ''Insufficient wallet balance'',
             replayed = False \<rparr>
   \<and> getWalletBalance exampleDatabase ''w-treasury'' ''gold'' = 500
   \<and> ledgerEntries (database (snd (executeMutation codePointCompare exampleEnv ''token-1''
          ''tx-1'' ''2026-01-01T00:00:00.000Z'' TOPUP (exampleRequest 501) exampleWorld)))
     = ledgerEntries exampleDatabase"
proof -
  let ?run = "executeMutation codePointCompare exampleEnv ''token-1'' ''tx-1''
       ''2026-01-01T00:00:00.000Z'' TOPUP (exampleRequest 501) exampleWorld"
  let ?result = "\<lparr> statusCode = 409,
             body = ErrorPayload ''INSUFFICIENT_FUNDS'' ''Insufficient wallet balance'',
             replayed = False \<rparr>"
  let ?ctx = "\<lparr> ctx_assetTypeId = ''gold'', ctx_assetCode = ''GOLD_COINS'',
      ctx_userWalletId = ''w-alice'', ctx_treasuryWalletId = ''w-treasury'' \<rparr>"
  have out: "fst ?run = Inr ?result"
    by code_simp
  then have run: "?run = (Inr ?result, snd ?run)"
    by (simp add: prod_eq_iff)
  have ctx: "resolveContext (database exampleWorld) (rq_userId (exampleRequest 501))
               (rq_assetCode (exampleRequest 501)) = Inr ?ctx"
    by code_simp
  have bal: "getWalletBalance exampleDatabase ''w-treasury'' ''gold'' = 500"
    by code_simp
  have w: "database exampleWorld = exampleDatabase"
    by (simp add: exampleWorld_def)
  from source_balance_check_is_uniform [OF run _ ctx] w out bal show ?thesis
    by simp
qed


section \<open>The balance query\<close>

lemma joinedRows_iff:
  "(w, a, le) \<in> set (joinedRows db) \<longleftrightarrow>
     w \<in> set (wallets db) \<and> a \<in> set (assetTypes db) \<and> a_id a = w_assetTypeId w
     \<and> (case le of
           None \<Rightarrow> \<forall>e\<in>set (ledgerEntries db).
                     \<not> (le_walletId e = w_id w \<and> le_assetTypeId e = w_assetTypeId w)
         | Some e \<Rightarrow> e \<in> set (ledgerEntries db)
                     \<and> le_walletId e = w_id w \<and> le_assetTypeId e = w_assetTypeId w)"
  by (cases le) (auto simp: joinedRows_def leftJoinEntries_def Let_def filter_empty_conv)

lemma sqlSum_all_null: "\<forall>v\<in>set vs. v = None \<Longrightarrow> sqlSum vs = None"
proof -
  assume "\<forall>v\<in>set vs. v = None"
  then have "List.map_filter (\<lambda>v. v) vs = []"
    by (induction vs) (auto simp: List.map_filter_def)
  then show ?thesis
    by (simp add: sqlSum_def)
qed

lemma bigintToString_0: "bigintToString 0 = ''0''"
  by code_simp

lemma groupedRows_member:
  assumes "(w, a, le) \<in> set rows"
  shows "\<lparr> br_assetCode = a_code a, br_assetName = a_name a,
           br_balance = coalesce
             (sqlSum (map (\<lambda>(w, a, le). map_option signedAmount le)
                        (filter (\<lambda>(w', a', le'). a_code a' = a_code a \<and> a_name a' = a_name a)
                           rows)))
             0 \<rparr> \<in> set (groupedRows rows)"
proof -
  have "(a_code a, a_name a) \<in> set (newSet (map (\<lambda>(w, a, le). (a_code a, a_name a)) rows))"
    using assms by (force simp: set_newSet)
  then show ?thesis
    unfolding groupedRows_def by (force simp: image_iff)
qed

text \<open>
  Claim C10. Let the user exist and own a wallet whose asset type exists and that has
  no ledger entry, and let the query be without filter, or filtered by that asset's
  code. Then \<open>getBalance\<close> answers, and the asset of the wallet is among the balances.
  Under the unique indexes of the schema (one asset type per code, one wallet per user
  and asset) its balance is the string \<open>0\<close>.
\<close>

theorem getBalance_keeps_empty_wallet:
  assumes "\<exists>u\<in>set (users db). u_id u = userId"
    and "w \<in> set (wallets db)" and "w_ownerType w = USER" and "w_userId w = Some userId"
    and "a \<in> set (assetTypes db)" and "a_id a = w_assetTypeId w"
    and "\<forall>e\<in>set (ledgerEntries db).
           \<not> (le_walletId e = w_id w \<and> le_assetTypeId e = w_assetTypeId w)"
    and "case assetCode of None \<Rightarrow> True | Some code \<Rightarrow> toUpperCase code = a_code a"
  shows "\<exists>response. getBalance dbCollate db userId assetCode = Inr response
           \<and> r_userId response = userId
           \<and> a_code a \<in> b_assetCode ` set (r_balances response)
           \<and> ((\<forall>a'\<in>set (assetTypes db). a_code a' = a_code a \<longrightarrow> a_id a' = a_id a)
                \<and> (\<forall>w'\<in>set (wallets db).
                      w_ownerType w' = USER \<and> w_userId w' = Some userId
                      \<and> w_assetTypeId w' = w_assetTypeId w \<longrightarrow> w_id w' = w_id w)
               \<longrightarrow> \<lparr> b_assetCode = a_code a, b_assetName = a_name a, b_balance = ''0'' \<rparr>
                     \<in> set (r_balances response))"
proof -
  define assetFilter where
    "assetFilter = (case map_option toUpperCase assetCode of
                      None \<Rightarrow> None
                    | Some code \<Rightarrow> if code = [] then None else Some code)"
  define rows where "rows = whereRows userId assetFilter (joinedRows db)"
  define result where "result = balanceQuery dbCollate db userId assetFilter"
  define item where
    "item = (\<lambda>row :: UserBalanceRow. \<lparr> b_assetCode = br_assetCode row, b_assetName = br_assetName row,
                      b_balance = bigintToString (br_balance row) \<rparr>)"
  define total where
    "total = coalesce
       (sqlSum (map (\<lambda>(w, a, le). map_option signedAmount le)
                  (filter (\<lambda>(w', a', le'). a_code a' = a_code a \<and> a_name a' = a_name a) rows)))
       0"
  have passes: "case assetFilter of None \<Rightarrow> True | Some code \<Rightarrow> a_code a = code"
    using assms(8) by (auto simp: assetFilter_def split: option.splits)
  have "(w, a, None) \<in> set (joinedRows db)"
    using assms(2,5,6,7) by (simp add: joinedRows_iff)
  then have inrows: "(w, a, None) \<in> set rows"
    using assms(3,4) passes by (simp add: rows_def whereRows_def)
  have group: "\<lparr> br_assetCode = a_code a, br_assetName = a_name a, br_balance = total \<rparr>
                 \<in> set result"
    using groupedRows_member [OF inrows]
    by (simp add: result_def balanceQuery_def set_sortBy rows_def total_def)
  then have nonempty: "length result \<noteq> 0"
    by auto
  obtain user where user: "find (\<lambda>u. u_id u = userId) (users db) = Some user"
    using assms(1) by (cases "find (\<lambda>u. u_id u = userId) (users db)") (auto simp: find_None_iff)
  have answer: "getBalance dbCollate db userId assetCode
                  = Inr \<lparr> r_userId = userId, r_balances = map item result \<rparr>"
    using user nonempty
    by (auto simp: getBalance_def Let_def assetFilter_def result_def item_def
             split: option.splits)
  have present: "\<lparr> b_assetCode = a_code a, b_assetName = a_name a,
                    b_balance = bigintToString total \<rparr> \<in> set (map item result)"
    using group by (force simp: item_def)
  have zero: "total = 0"
    if u1: "\<forall>a'\<in>set (assetTypes db). a_code a' = a_code a \<longrightarrow> a_id a' = a_id a"
      and u2: "\<forall>w'\<in>set (wallets db).
                 w_ownerType w' = USER \<and> w_userId w' = Some userId
                 \<and> w_assetTypeId w' = w_assetTypeId w \<longrightarrow> w_id w' = w_id w"
  proof -
    have "le' = None"
      if r: "(w', a', le') \<in> set rows" and k: "a_code a' = a_code a" for w' a' le'
    proof (cases le')
      case None
      then show ?thesis .
    next
      case (Some e)
      from r have j: "(w', a', le') \<in> set (joinedRows db)"
        and own: "w_ownerType w' = USER" "w_userId w' = Some userId"
        by (auto simp: rows_def whereRows_def)
      from j Some have w': "w' \<in> set (wallets db)" "a' \<in> set (assetTypes db)"
        "a_id a' = w_assetTypeId w'" "e \<in> set (ledgerEntries db)"
        "le_walletId e = w_id w'" "le_assetTypeId e = w_assetTypeId w'"
        by (simp_all add: joinedRows_iff)
      from u1 w'(2) k have "a_id a' = a_id a" by blast
      with w'(3) assms(6) have same: "w_assetTypeId w' = w_assetTypeId w" by simp
      with u2 w'(1) own have "w_id w' = w_id w" by blast
      with w'(4,5,6) same assms(7) show ?thesis by auto
    qed
    then have "\<forall>v\<in>set (map (\<lambda>(w, a, le). map_option signedAmount le)
                  (filter (\<lambda>(w', a', le'). a_code a' = a_code a \<and> a_name a' = a_name a) rows)).
                 v = None"
      by auto
    from sqlSum_all_null [OF this] show ?thesis
      by (simp add: total_def coalesce_def)
  qed
  have "b_assetCode \<lparr> b_assetCode = a_code a, b_assetName = a_name a,
                        b_balance = bigintToString total \<rparr>
          \<in> b_assetCode ` set (map item result)"
    using present by (rule imageI)
  then have "a_code a \<in> b_assetCode ` set (map item result)"
    by simp
  with answer present zero show ?thesis
    by (auto simp: bigintToString_0)
qed

theorem getBalance_keeps_empty_wallet_witness:
  "\<exists>response. getBalance codePointCompare twoAssetDatabase ''alice'' None = Inr response
     \<and> \<lparr> b_assetCode = ''DIAMONDS'', b_assetName = ''Diamonds'', b_balance = ''0'' \<rparr>
         \<in> set (r_balances response)"
proof -
  let ?w = "\<lparr>w_id = ''w-alice-diamonds'', w_userId = Some ''alice'', w_ownerType = USER,
             w_systemCode = None, w_assetTypeId = ''diamond'', w_version = 0\<rparr>"
  let ?a = "\<lparr>a_id = ''diamond'', a_code = ''DIAMONDS'', a_name = ''Diamonds''\<rparr>"
  have h1: "\<exists>u\<in>set (users twoAssetDatabase). u_id u = ''alice''"
    by (simp add: twoAssetDatabase_def exampleDatabase_def)
  have h2: "?w \<in> set (wallets twoAssetDatabase)"
    by (simp add: twoAssetDatabase_def exampleDatabase_def)
  have h5: "?a \<in> set (assetTypes twoAssetDatabase)"
    by (simp add: twoAssetDatabase_def exampleDatabase_def)
  have h7: "\<forall>e\<in>set (ledgerEntries twoAssetDatabase).
           \<not> (le_walletId e = w_id ?w \<and> le_assetTypeId e = w_assetTypeId ?w)"
    by (simp add: twoAssetDatabase_def exampleDatabase_def)
  have h8: "case None of None \<Rightarrow> True | Some code \<Rightarrow> toUpperCase code = a_code ?a"
    by simp
  have u1: "\<forall>a'\<in>set (assetTypes twoAssetDatabase). a_code a' = a_code ?a \<longrightarrow> a_id a' = a_id ?a"
    by (simp add: twoAssetDatabase_def exampleDatabase_def)
  have u2: "\<forall>w'\<in>set (wallets twoAssetDatabase).
              w_ownerType w' = USER \<and> w_userId w' = Some ''alice''
              \<and> w_assetTypeId w' = w_assetTypeId ?w \<longrightarrow> w_id w' = w_id ?w"
    by (simp add: twoAssetDatabase_def exampleDatabase_def)
  from getBalance_keeps_empty_wallet [OF h1 h2 _ _ h5 _ h7 h8, of codePointCompare] u1 u2
  show ?thesis
    by auto
qed


section \<open>Printing numbers\<close>

declare natToString.simps [simp del]

lemma of_char_digitChar: "d < 10 \<Longrightarrow> of_char (digitChar d) = 48 + d"
  by (simp add: digitChar_def)

lemma natToString_digits: "c \<in> set (natToString n) \<Longrightarrow> isDigit c"
proof (induction n arbitrary: c rule: natToString.induct)
  case (1 n)
  show ?case
  proof (cases "n < 10")
    case True
    with "1.prems" show ?thesis
      by (simp add: natToString.simps [of n] isDigit_def of_char_digitChar)
  next
    case False
    with "1.prems" "1.IH" show ?thesis
      by (auto simp: natToString.simps [of n] isDigit_def of_char_digitChar)
  qed
qed

lemma natToString_nonempty: "natToString n \<noteq> []"
  by (subst natToString.simps) simp

lemma readNat_natToString: "readNat (natToString n) = n"
proof (induction n rule: natToString.induct)
  case (1 n)
  show ?case
  proof (cases "n < 10")
    case True
    then show ?thesis
      by (simp add: natToString.simps [of n] readNat_def of_char_digitChar)
  next
    case False
    with "1.IH" have "readNat (natToString (n div 10)) = n div 10" by simp
    with False show ?thesis
      by (simp add: natToString.simps [of n] readNat_def of_char_digitChar)
  qed
qed


subsection \<open>The digits of a double\<close>

text \<open>
  Some doubles as \<open>JSON.stringify\<close> prints them: an integer beyond \<open>2^53\<close>, the least
  power of ten in exponent form, a fraction, the least power of ten printed in plain
  form and the next below it, the negative number nearest to zero, and the two zeros.
\<close>

lemma jsonStringifyNumber_examples:
  "jsonStringifyNumber (Finite 12345678901234567 3) = ''12345678901234567000''"
  "jsonStringifyNumber (Finite 1 21) = ''1e+21''"
  "jsonStringifyNumber (Finite 123456 (- 3)) = ''123.456''"
  "jsonStringifyNumber (Finite 1 (- 6)) = ''0.000001''"
  "jsonStringifyNumber (Finite 1 (- 7)) = ''1e-7''"
  "jsonStringifyNumber (Finite (- 5) (- 324)) = ''-5e-324''"
  "jsonStringifyNumber (Finite 0 0) = ''0''"
  "jsonStringifyNumber NegativeZero = ''0''"
  by code_simp+

declare decimalDigits.simps [simp del] trimZeros.simps [simp del]

lemma decimalDigits_natToString: "0 \<le> i \<Longrightarrow> decimalDigits i = natToString (nat i)"
proof (induction i rule: decimalDigits.induct)
  case (1 i)
  show ?case
  proof (cases "i < 10")
    case True
    with "1.prems" have "nat i < 10" by simp
    with True show ?thesis
      by (simp add: decimalDigits.simps [of i] natToString.simps [of "nat i"])
  next
    case False
    with "1.prems" "1.IH" have "decimalDigits (i div 10) = natToString (nat (i div 10))"
      by simp
    moreover have "nat (i div 10) = nat i div 10" "nat (i mod 10) = nat i mod 10"
      using "1.prems" by (simp_all add: nat_div_distrib nat_mod_distrib)
    moreover from False "1.prems" have "\<not> nat i < 10" by simp
    ultimately show ?thesis
      using False by (simp add: decimalDigits.simps [of i] natToString.simps [of "nat i"])
  qed
qed

lemma digitChar_0: "digitChar 0 = CHR ''0''"
  by code_simp

lemma digitChar_zero: "d < 10 \<Longrightarrow> digitChar d = CHR ''0'' \<longleftrightarrow> d = 0"
proof
  assume "d < 10" "digitChar d = CHR ''0''"
  then have "of_char (digitChar d) = (48 :: nat)" by simp
  with \<open>d < 10\<close> show "d = 0" by (simp add: of_char_digitChar)
next
  assume "d = 0"
  then show "digitChar d = CHR ''0''" by (simp add: digitChar_0)
qed

lemma natToString_hd: "0 < n \<Longrightarrow> hd (natToString n) \<noteq> CHR ''0''"
proof (induction n rule: natToString.induct)
  case (1 n)
  show ?case
  proof (cases "n < 10")
    case True
    with "1.prems" show ?thesis
      by (simp add: natToString.simps [of n] digitChar_zero)
  next
    case False
    with "1.IH" have "hd (natToString (n div 10)) \<noteq> CHR ''0''" by simp
    with False show ?thesis
      by (simp add: natToString.simps [of n] natToString_nonempty)
  qed
qed

lemma natToString_last: "last (natToString n) = digitChar (n mod 10)"
  by (simp add: natToString.simps [of n])

lemma trimZeros_normal:
  "0 < s \<Longrightarrow> trimZeros s e = (t, f) \<Longrightarrow> 0 < t \<and> t mod 10 \<noteq> 0"
proof (induction s e rule: trimZeros.induct)
  case (1 s e)
  show ?case
  proof (cases "s mod 10 = 0")
    case True
    with "1.prems" have "trimZeros (s div 10) (e + 1) = (t, f)"
      by (simp add: trimZeros.simps [of s e])
    moreover from True "1.prems"(1) have "0 < s div 10"
      by (simp add: pos_imp_zdiv_pos_iff) presburger
    ultimately show ?thesis
      using "1.IH" True "1.prems"(1) by simp
  next
    case False
    with "1.prems" show ?thesis
      by (simp add: trimZeros.simps [of s e])
  qed
qed

lemma trimZeros_fixed: "s mod 10 \<noteq> 0 \<Longrightarrow> trimZeros s e = (s, e)"
  by (simp add: trimZeros.simps [of s e])

lemma digitString_decimalDigits:
  assumes "0 < t" and "t mod 10 \<noteq> 0"
  shows "digitString (decimalDigits t)"
proof -
  have d: "decimalDigits t = natToString (nat t)"
    using assms(1) by (simp add: decimalDigits_natToString)
  have "nat t mod 10 = nat (t mod 10)"
    using assms(1) by (simp add: nat_mod_distrib)
  moreover have "0 < t mod 10"
    using assms(2) by (simp add: less_le)
  ultimately have "nat t mod 10 \<noteq> 0"
    by simp
  then have "last (natToString (nat t)) \<noteq> CHR ''0''"
    by (simp add: natToString_last digitChar_zero)
  moreover have "hd (natToString (nat t)) \<noteq> CHR ''0''"
    using assms(1) by (simp add: natToString_hd)
  ultimately show ?thesis
    using natToString_digits [of _ "nat t"] natToString_nonempty [of "nat t"]
    by (auto simp: digitString_def d)
qed


lemma isDigit_not_special:
  "isDigit c \<Longrightarrow> c \<noteq> CHR ''e'' \<and> c \<noteq> CHR ''.'' \<and> c \<noteq> CHR ''-'' \<and> c \<noteq> CHR ''+''"
  by (auto simp: isDigit_def)

lemma digitString_chars:
  assumes "digitString ds" and "c \<in> set ds"
  shows "c \<noteq> CHR ''e''" and "c \<noteq> CHR ''.''"
  using assms isDigit_not_special [of c] by (auto simp: digitString_def)

lemma readNat_decimalDigits: "0 \<le> x \<Longrightarrow> readNat (decimalDigits x) = nat x"
  by (simp add: decimalDigits_natToString readNat_natToString)

lemma decimalDigits_chars: "0 \<le> x \<Longrightarrow> c \<in> set (decimalDigits x) \<Longrightarrow> isDigit c"
  by (simp add: decimalDigits_natToString natToString_digits)

lemma dropWhile_replicate_append:
  "P x \<Longrightarrow> dropWhile P (replicate j x @ ys) = dropWhile P ys"
  by (induction j) simp_all

lemma takeWhile_replicate_append:
  "P x \<Longrightarrow> takeWhile P (replicate j x @ ys) = replicate j x @ takeWhile P ys"
  by (induction j) simp_all

lemma readDecimal_plain:
  assumes "digitString ds"
  shows "readDecimal (ds @ replicate j (CHR ''0'')) = (ds, int (length ds) + int j)"
proof -
  let ?out = "ds @ replicate j (CHR ''0'')"
  have noE: "\<forall>c\<in>set ?out. c \<noteq> CHR ''e''" and noP: "CHR ''.'' \<notin> set ?out"
    using digitString_chars [OF assms] by auto
  from noE have e: "takeWhile (\<lambda>c. c \<noteq> CHR ''e'') ?out = ?out"
    "dropWhile (\<lambda>c. c \<noteq> CHR ''e'') ?out = []"
    by (simp_all only: takeWhile_eq_all_conv dropWhile_eq_Nil_conv)
  have "rev ds \<noteq> []" "hd (rev ds) \<noteq> CHR ''0''"
    using assms by (simp_all add: digitString_def hd_rev)
  then have "dropWhile (\<lambda>c. c = CHR ''0'') (rev ds) = rev ds"
    by (cases "rev ds") simp_all
  then have "dropWhile (\<lambda>c. c = CHR ''0'') (rev ?out) = rev ds"
    by (simp add: dropWhile_replicate_append)
  with e noP show ?thesis
    by (simp add: readDecimal_def Let_def del: rev_append)
qed

lemma readDecimal_point:
  assumes "digitString ds" and "0 < i" and "i < length ds"
  shows "readDecimal (take i ds @ ''.'' @ drop i ds) = (ds, int i)"
proof -
  let ?out = "take i ds @ ''.'' @ drop i ds"
  have chars: "c \<noteq> CHR ''e''" "c \<noteq> CHR ''.''" if "c \<in> set ds" for c
    using digitString_chars [OF assms(1) that] by simp_all
  have parts: "c \<in> set ds" if "c \<in> set (take i ds) \<or> c \<in> set (drop i ds)" for c
    using that by (auto dest: in_set_takeD in_set_dropD)
  have noE: "\<forall>c\<in>set ?out. c \<noteq> CHR ''e''"
    using chars(1) parts by auto
  then have e: "takeWhile (\<lambda>c. c \<noteq> CHR ''e'') ?out = ?out"
    "dropWhile (\<lambda>c. c \<noteq> CHR ''e'') ?out = []"
    by (simp_all only: takeWhile_eq_all_conv dropWhile_eq_Nil_conv)
  have p: "CHR ''.'' \<in> set ?out" by simp
  have "take i ds \<noteq> []" using assms by (auto simp: digitString_def)
  then have "hd ?out = hd ds"
    using assms(2) by (cases ds) (simp_all add: take_Cons')
  then have h: "hd ?out \<noteq> CHR ''0''"
    using assms(1) by (simp add: digitString_def)
  have "filter (\<lambda>c. c \<noteq> CHR ''.'') (take i ds) = take i ds"
    "filter (\<lambda>c. c \<noteq> CHR ''.'') (drop i ds) = drop i ds"
    using chars(2) parts by (simp_all add: filter_id_conv)
  then have f: "filter (\<lambda>c. c \<noteq> CHR ''.'') ?out = ds"
    by simp
  have "takeWhile (\<lambda>c. c \<noteq> CHR ''.'') ?out = take i ds"
    using chars(2) parts by (simp add: takeWhile_append2)
  then have t: "length (takeWhile (\<lambda>c. c \<noteq> CHR ''.'') ?out) = i"
    using assms(3) by simp
  show ?thesis
    unfolding readDecimal_def Let_def e using p h f t by simp
qed

lemma readDecimal_fraction:
  assumes "digitString ds"
  shows "readDecimal (''0.'' @ replicate j (CHR ''0'') @ ds) = (ds, - int j)"
proof -
  let ?out = "''0.'' @ replicate j (CHR ''0'') @ ds"
  have noE: "\<forall>c\<in>set ?out. c \<noteq> CHR ''e''"
    using digitString_chars(1) [OF assms] by auto
  then have e: "takeWhile (\<lambda>c. c \<noteq> CHR ''e'') ?out = ?out"
    "dropWhile (\<lambda>c. c \<noteq> CHR ''e'') ?out = []"
    by (simp_all only: takeWhile_eq_all_conv dropWhile_eq_Nil_conv)
  have p: "CHR ''.'' \<in> set ?out" "hd ?out = CHR ''0''" by simp_all
  have d: "drop 2 ?out = replicate j (CHR ''0'') @ ds" by simp
  have "ds \<noteq> []" "hd ds \<noteq> CHR ''0''"
    using assms by (simp_all add: digitString_def)
  then have "dropWhile (\<lambda>c. c = CHR ''0'') ds = ds" "takeWhile (\<lambda>c. c = CHR ''0'') ds = []"
    by (cases ds; simp)+
  then have "dropWhile (\<lambda>c. c = CHR ''0'') (replicate j (CHR ''0'') @ ds) = ds"
    "takeWhile (\<lambda>c. c = CHR ''0'') (replicate j (CHR ''0'') @ ds) = replicate j (CHR ''0'')"
    by (simp_all add: dropWhile_replicate_append takeWhile_replicate_append)
  then show ?thesis
    unfolding readDecimal_def Let_def e d using p by simp
qed

lemma readDecimal_exponent:
  assumes "digitString ds" and "0 \<le> x"
    and "mantissa = ds \<or> mantissa = take 1 ds @ ''.'' @ drop 1 ds"
    and "sign = CHR ''-'' \<or> sign = CHR ''+''"
  shows "readDecimal (mantissa @ ''e'' @ [sign] @ decimalDigits x)
           = (ds, (if sign = CHR ''-'' then - x else x) + 1)"
proof -
  let ?out = "mantissa @ ''e'' @ [sign] @ decimalDigits x"
  have chars: "c \<noteq> CHR ''e''" "c \<noteq> CHR ''.''" if "c \<in> set ds" for c
    using digitString_chars [OF assms(1) that] by simp_all
  have "c \<in> set ds \<or> c = CHR ''.''" if "c \<in> set mantissa" for c
    using that assms(3) by (auto dest: in_set_takeD in_set_dropD)
  with chars(1) have m: "\<forall>c\<in>set mantissa. c \<noteq> CHR ''e''"
    by fastforce
  then have e: "takeWhile (\<lambda>c. c \<noteq> CHR ''e'') ?out = mantissa"
    "dropWhile (\<lambda>c. c \<noteq> CHR ''e'') ?out = ''e'' @ [sign] @ decimalDigits x"
    by (simp_all add: takeWhile_append2 dropWhile_append2)
  have "filter (\<lambda>c. c \<noteq> CHR ''.'') ds = ds"
    using chars(2) by (simp add: filter_id_conv)
  moreover have "filter (\<lambda>c. c \<noteq> CHR ''.'') (take 1 ds) = take 1 ds"
    "filter (\<lambda>c. c \<noteq> CHR ''.'') (drop 1 ds) = drop 1 ds"
    using chars(2) by (simp_all add: filter_id_conv) (meson in_set_takeD in_set_dropD)+
  then have "filter (\<lambda>c. c \<noteq> CHR ''.'') (take 1 ds @ ''.'' @ drop 1 ds)
                   = take 1 ds @ drop 1 ds"
    by simp
  ultimately have f: "filter (\<lambda>c. c \<noteq> CHR ''.'') mantissa = ds"
    using assms(3) by auto
  have r: "readExponent ([sign] @ decimalDigits x) = (if sign = CHR ''-'' then - x else x)"
    using assms(2) by (simp add: readExponent_def readNat_decimalDigits)
  show ?thesis
    unfolding readDecimal_def Let_def e using f r by simp
qed

lemma readDecimal_formatDecimal:
  assumes "digitString ds"
  shows "readDecimal (formatDecimal ds n) = (ds, n)"
proof -
  let ?k = "int (length ds)"
  consider (plain) "?k \<le> n" "n \<le> 21"
    | (point) "\<not> (?k \<le> n \<and> n \<le> 21)" "0 < n" "n \<le> 21"
    | (fraction) "\<not> (?k \<le> n \<and> n \<le> 21)" "\<not> (0 < n \<and> n \<le> 21)" "- 6 < n" "n \<le> 0"
    | (exponent) "\<not> (?k \<le> n \<and> n \<le> 21)" "\<not> (0 < n \<and> n \<le> 21)" "\<not> (- 6 < n \<and> n \<le> 0)"
    by linarith
  then show ?thesis
  proof cases
    case plain
    then show ?thesis
      using readDecimal_plain [OF assms, of "nat (n - ?k)"]
      by (simp add: formatDecimal_def Let_def)
  next
    case point
    then have "0 < nat n" "nat n < length ds" by simp_all
    from readDecimal_point [OF assms this] point show ?thesis
      by (simp add: formatDecimal_def Let_def)
  next
    case fraction
    then show ?thesis
      using readDecimal_fraction [OF assms, of "nat (- n)"]
      by (simp add: formatDecimal_def Let_def)
  next
    case exponent
    let ?sign = "if n - 1 < 0 then CHR ''-'' else CHR ''+''"
    let ?mantissa = "if ?k = 1 then ds else take 1 ds @ ''.'' @ drop 1 ds"
    have "readDecimal (?mantissa @ ''e'' @ [?sign] @ decimalDigits \<bar>n - 1\<bar>)
            = (ds, (if ?sign = CHR ''-'' then - \<bar>n - 1\<bar> else \<bar>n - 1\<bar>) + 1)"
      by (rule readDecimal_exponent [OF assms]) auto
    moreover have "(if ?sign = CHR ''-'' then - \<bar>n - 1\<bar> else \<bar>n - 1\<bar>) + 1 = n"
      by simp
    moreover have "formatDecimal ds n = ?mantissa @ ''e'' @ [?sign] @ decimalDigits \<bar>n - 1\<bar>"
    proof -
      have c: "(?k \<le> n \<and> n \<le> 21) = False" "(0 < n \<and> n \<le> 21) = False"
        "(- 6 < n \<and> n \<le> 0) = False"
        using exponent by simp_all
      show ?thesis
        unfolding formatDecimal_def Let_def c by simp
    qed
    ultimately show ?thesis
      by simp
  qed
qed



lemma formatDecimal_forms:
  obtains (plain) j where "formatDecimal ds n = ds @ replicate j (CHR ''0'')"
  | (point) i where "0 < i" "i < length ds"
      "formatDecimal ds n = take i ds @ ''.'' @ drop i ds"
  | (fraction) j where "formatDecimal ds n = ''0.'' @ replicate j (CHR ''0'') @ ds"
  | (exponent) mantissa sign where
      "mantissa = ds \<or> mantissa = take 1 ds @ ''.'' @ drop 1 ds"
      "sign = CHR ''-'' \<or> sign = CHR ''+''"
      "formatDecimal ds n = mantissa @ ''e'' @ [sign] @ decimalDigits \<bar>n - 1\<bar>"
proof -
  let ?k = "int (length ds)"
  consider (a) "?k \<le> n \<and> n \<le> 21"
    | (b) "\<not> (?k \<le> n \<and> n \<le> 21)" "0 < n \<and> n \<le> 21"
    | (c) "\<not> (?k \<le> n \<and> n \<le> 21)" "\<not> (0 < n \<and> n \<le> 21)" "- 6 < n \<and> n \<le> 0"
    | (d) "\<not> (?k \<le> n \<and> n \<le> 21)" "\<not> (0 < n \<and> n \<le> 21)" "\<not> (- 6 < n \<and> n \<le> 0)"
    by blast
  then show ?thesis
  proof cases
    case a
    then have "formatDecimal ds n = ds @ replicate (nat (n - ?k)) (CHR ''0'')"
      by (simp add: formatDecimal_def Let_def)
    then show ?thesis by (rule plain)
  next
    case b
    then have c: "(?k \<le> n \<and> n \<le> 21) = False" "(0 < n \<and> n \<le> 21) = True"
      by simp_all
    have "formatDecimal ds n = take (nat n) ds @ ''.'' @ drop (nat n) ds"
      unfolding formatDecimal_def Let_def c by simp
    moreover from b have "0 < nat n" "nat n < length ds" by auto
    ultimately show ?thesis using point by blast
  next
    case c
    then have c: "(?k \<le> n \<and> n \<le> 21) = False" "(0 < n \<and> n \<le> 21) = False"
      "(- 6 < n \<and> n \<le> 0) = True"
      by simp_all
    have "formatDecimal ds n = ''0.'' @ replicate (nat (- n)) (CHR ''0'') @ ds"
      unfolding formatDecimal_def Let_def c by simp
    then show ?thesis by (rule fraction)
  next
    case d
    then have c: "(?k \<le> n \<and> n \<le> 21) = False" "(0 < n \<and> n \<le> 21) = False"
      "(- 6 < n \<and> n \<le> 0) = False"
      by simp_all
    let ?sign = "if n - 1 < 0 then CHR ''-'' else CHR ''+''"
    let ?mantissa = "if ?k = 1 then ds else take 1 ds @ ''.'' @ drop 1 ds"
    have "formatDecimal ds n = ?mantissa @ ''e'' @ [?sign] @ decimalDigits \<bar>n - 1\<bar>"
      unfolding formatDecimal_def Let_def c by simp
    moreover have "?mantissa = ds \<or> ?mantissa = take 1 ds @ ''.'' @ drop 1 ds"
      by simp
    moreover have "?sign = CHR ''-'' \<or> ?sign = CHR ''+''"
      by simp
    ultimately show ?thesis by (rule exponent [rotated 2])
  qed
qed

lemma formatDecimal_numChars:
  assumes "digitString ds" and "c \<in> set (formatDecimal ds n)"
  shows "numChar c"
proof -
  have ds: "numChar d" if "d \<in> set ds" for d
    using that assms(1) by (simp add: digitString_def numChar_def)
  have ex: "numChar d" if "d \<in> set (decimalDigits \<bar>n - 1\<bar>)" for d
    using that decimalDigits_chars [of "\<bar>n - 1\<bar>" d] by (simp add: numChar_def)
  have z: "numChar (CHR ''0'')" "numChar (CHR ''.'')" "numChar (CHR ''e'')"
    "numChar (CHR ''-'')" "numChar (CHR ''+'')"
    by (simp_all add: numChar_def isDigit_def)
  show ?thesis
  proof (cases rule: formatDecimal_forms [of ds n])
    case (plain j)
    with assms(2) ds z show ?thesis by auto
  next
    case (point i)
    with assms(2) ds z show ?thesis by (auto dest: in_set_takeD in_set_dropD)
  next
    case (fraction j)
    with assms(2) ds z show ?thesis by auto
  next
    case (exponent mantissa sign)
    have "d \<in> set ds \<or> d = CHR ''.''" if "d \<in> set mantissa" for d
      using that exponent(1) by (auto dest: in_set_takeD in_set_dropD)
    with ds z have "numChar d" if "d \<in> set mantissa" for d
      using that by blast
    with assms(2) exponent(2,3) ex z show ?thesis by auto
  qed
qed

lemma formatDecimal_hd:
  assumes "digitString ds"
  shows "formatDecimal ds n \<noteq> [] \<and> isDigit (hd (formatDecimal ds n))"
proof -
  obtain d ds' where ds: "ds = d # ds'"
    using assms by (cases ds) (auto simp: digitString_def)
  then have d: "isDigit d"
    using assms by (simp add: digitString_def)
  have z: "isDigit (CHR ''0'')"
    by (simp add: isDigit_def)
  show ?thesis
  proof (cases rule: formatDecimal_forms [of ds n])
    case (plain j)
    with ds d show ?thesis by simp
  next
    case (point i)
    with ds d show ?thesis by (simp add: take_Cons')
  next
    case (fraction j)
    with z show ?thesis by simp
  next
    case (exponent mantissa sign)
    with ds d show ?thesis by auto
  qed
qed

lemma formatDecimal_inj:
  assumes "digitString ds" and "digitString ds'"
    and "formatDecimal ds n = formatDecimal ds' n'"
  shows "ds = ds' \<and> n = n'"
proof -
  have "(ds, n) = readDecimal (formatDecimal ds n)"
    by (simp only: readDecimal_formatDecimal [OF assms(1)])
  also have "\<dots> = readDecimal (formatDecimal ds' n')"
    by (simp only: assms(3))
  also have "\<dots> = (ds', n')"
    by (rule readDecimal_formatDecimal [OF assms(2)])
  finally show ?thesis
    by (simp only: prod.inject)
qed

lemma formatDecimal_not_zero:
  assumes "digitString ds"
  shows "formatDecimal ds n \<noteq> ''0''"
proof
  assume "formatDecimal ds n = ''0''"
  with readDecimal_formatDecimal [OF assms, of n] have "readDecimal ''0'' = (ds, n)"
    by simp
  moreover have "readDecimal ''0'' = ([], 1)"
    by (simp add: readDecimal_def)
  ultimately show False
    using assms by (simp add: digitString_def)
qed

lemma decimalToString_trimmed:
  assumes "trimZeros m e = (t, f)"
  shows "decimalToString m e
           = formatDecimal (decimalDigits t) (f + int (length (decimalDigits t)))"
  using assms by (simp add: decimalToString_def Let_def)

lemma finite_number_cases:
  assumes "isFinite a"
  obtains (zero) "numberToString a = ''0''" "normalForm a = Finite 0 0"
  | (positive) ds n t f where "digitString ds" "0 < t" "ds = decimalDigits t"
      "n = f + int (length ds)" "t mod 10 \<noteq> 0"
      "numberToString a = formatDecimal ds n" "normalForm a = Finite t f"
  | (negative) ds n t f where "digitString ds" "0 < t" "ds = decimalDigits t"
      "n = f + int (length ds)" "t mod 10 \<noteq> 0"
      "numberToString a = CHR ''-'' # formatDecimal ds n" "normalForm a = Finite (- t) f"
proof (cases a)
  case (Finite m e)
  consider "m = 0" | "0 < m" | "m < 0" by linarith
  then show ?thesis
  proof cases
    case 1
    with Finite zero show ?thesis
      by (simp add: numberToString_def normalForm_def)
  next
    case 2
    obtain t f where tf: "trimZeros m e = (t, f)"
      by (cases "trimZeros m e")
    from trimZeros_normal [OF 2 tf] have t: "0 < t" "t mod 10 \<noteq> 0"
      by simp_all
    have "numberToString a
        = formatDecimal (decimalDigits t) (f + int (length (decimalDigits t)))"
      using Finite 2 decimalToString_trimmed [OF tf] by (simp add: numberToString_def)
    moreover have "normalForm a = Finite t f"
      using Finite 2 tf by (simp add: normalForm_def)
    ultimately show ?thesis
      using positive [OF digitString_decimalDigits [OF t] t(1) refl refl t(2)] by blast
  next
    case 3
    obtain t f where tf: "trimZeros (- m) e = (t, f)"
      by (cases "trimZeros (- m) e")
    from 3 have pos: "0 < - m" by simp
    from trimZeros_normal [OF pos tf] have t: "0 < t" "t mod 10 \<noteq> 0"
      by simp_all
    have "numberToString a
        = CHR ''-'' # formatDecimal (decimalDigits t) (f + int (length (decimalDigits t)))"
      using Finite 3 decimalToString_trimmed [OF tf] by (simp add: numberToString_def)
    moreover have "normalForm a = Finite (- t) f"
      using Finite 3 tf by (simp add: normalForm_def abs_if)
    ultimately show ?thesis
      using negative [OF digitString_decimalDigits [OF t] t(1) refl refl t(2)] by blast
  qed
next
  case NegativeZero
  with zero show ?thesis
    by (simp add: numberToString_def normalForm_def)
next
  case Infinity
  with assms show ?thesis
    by (simp add: isFinite_def)
next
  case NegativeInfinity
  with assms show ?thesis
    by (simp add: isFinite_def)
qed

lemma decimalDigits_inj:
  assumes "0 < t" and "0 < t'" and "decimalDigits t = decimalDigits t'"
  shows "t = t'"
proof -
  have "nat t = readNat (decimalDigits t)" "nat t' = readNat (decimalDigits t')"
    using assms(1,2) by (simp_all add: readNat_decimalDigits)
  with assms show ?thesis
    by simp
qed

lemma numberToString_inj:
  assumes "isFinite a" and "isFinite b" and eq: "numberToString a = numberToString b"
  shows "normalForm a = normalForm b"
proof -
  have minus: "\<not> isDigit (CHR ''-'')"
    by (simp add: isDigit_def)
  have sign: "CHR ''-'' # x \<noteq> formatDecimal ds n" if "digitString ds" for x ds n
  proof
    assume "CHR ''-'' # x = formatDecimal ds n"
    then have "hd (formatDecimal ds n) = CHR ''-''"
      by (metis list.sel(1))
    with formatDecimal_hd [OF that, of n] minus show False
      by simp
  qed
  have same: "t = t' \<and> f = f'"
    if "digitString ds" "digitString ds'" "formatDecimal ds n = formatDecimal ds' n'"
      "0 < t" "0 < t'" "ds = decimalDigits t" "ds' = decimalDigits t'"
      "n = f + int (length ds)" "n' = f' + int (length ds')"
    for ds ds' n n' t t' and f f' :: int
  proof -
    note both = formatDecimal_inj [OF that(1,2,3)]
    from both have e: "ds = ds'" and m: "n = n'" by blast+
    from e that(6,7) have "decimalDigits t = decimalDigits t'" by simp
    from decimalDigits_inj [OF that(4,5) this] have "t = t'" .
    moreover have "f = f'"
    proof -
      have "f = n - int (length ds)" using that(8) by simp
      also have "\<dots> = n' - int (length ds')" using e m by simp
      also have "\<dots> = f'" using that(9) by simp
      finally show ?thesis .
    qed
    ultimately show ?thesis by simp
  qed
  from assms(1) show ?thesis
  proof (cases rule: finite_number_cases)
    case zero
    note a = zero
    from assms(2) show ?thesis
    proof (cases rule: finite_number_cases)
      case zero
      with a show ?thesis by simp
    next
      case (positive ds n t f)
      from a(1) positive(6) eq have "formatDecimal ds n = ''0''" by simp
      with formatDecimal_not_zero [OF positive(1)] show ?thesis by blast
    next
      case (negative ds n t f)
      from a(1) negative(6) eq show ?thesis by simp
    qed
  next
    case (positive ds n t f)
    note a = positive
    from assms(2) show ?thesis
    proof (cases rule: finite_number_cases)
      case zero
      from a(6) zero(1) eq have "formatDecimal ds n = ''0''" by simp
      with formatDecimal_not_zero [OF a(1)] show ?thesis by blast
    next
      case (positive ds' n' t' f')
      from a(6) positive(6) eq have "formatDecimal ds n = formatDecimal ds' n'" by simp
      from same [OF a(1) positive(1) this a(2) positive(2) a(3) positive(3) a(4) positive(4)]
      show ?thesis using a(7) positive(7) by simp
    next
      case (negative ds' n' t' f')
      from a(6) negative(6) eq have "CHR ''-'' # formatDecimal ds' n' = formatDecimal ds n"
        by simp
      with sign [OF a(1)] show ?thesis by blast
    qed
  next
    case (negative ds n t f)
    note a = negative
    from assms(2) show ?thesis
    proof (cases rule: finite_number_cases)
      case zero
      from a(6) zero(1) eq show ?thesis by simp
    next
      case (positive ds' n' t' f')
      from a(6) positive(6) eq have "CHR ''-'' # formatDecimal ds n = formatDecimal ds' n'"
        by simp
      with sign [OF positive(1)] show ?thesis by blast
    next
      case (negative ds' n' t' f')
      from a(6) negative(6) eq have "formatDecimal ds n = formatDecimal ds' n'" by simp
      from same [OF a(1) negative(1) this a(2) negative(2) a(3) negative(3) a(4) negative(4)]
      show ?thesis using a(7) negative(7) by simp
    qed
  qed
qed


lemma isFinite_normalForm: "isFinite (normalForm a) = isFinite a"
  by (cases a) (simp_all add: normalForm_def isFinite_def Let_def split: prod.splits)

lemma numberToString_normalForm:
  assumes "isFinite a"
  shows "numberToString (normalForm a) = numberToString a"
  using assms
proof (cases rule: finite_number_cases)
  case zero
  then show ?thesis
    by (simp add: numberToString_def)
next
  case (positive ds n t f)
  have "decimalToString t f = formatDecimal ds n"
    using decimalToString_trimmed [OF trimZeros_fixed [OF positive(5)], of f] positive(3,4)
    by simp
  with positive(2,6,7) show ?thesis
    by (simp add: numberToString_def)
next
  case (negative ds n t f)
  have "decimalToString t f = formatDecimal ds n"
    using decimalToString_trimmed [OF trimZeros_fixed [OF negative(5)], of f] negative(3,4)
    by simp
  with negative(2,6,7) show ?thesis
    by (simp add: numberToString_def)
qed

text \<open>
  Numbers that \<open>===\<close> identifies print alike, and finite numbers that print alike are
  the same.
\<close>

lemma strictEquals_print:
  assumes "strictEquals a b"
  shows "jsonStringifyNumber a = jsonStringifyNumber b"
proof -
  from assms have nf: "normalForm a = normalForm b"
    by (simp add: strictEquals_def)
  then have fin: "isFinite a = isFinite b"
    using isFinite_normalForm [of a] isFinite_normalForm [of b] by simp
  show ?thesis
  proof (cases "isFinite a")
    case True
    with fin have "isFinite b" by simp
    from numberToString_normalForm [OF True] numberToString_normalForm [OF this] nf
    have "numberToString a = numberToString b" by simp
    with True \<open>isFinite b\<close> show ?thesis
      by (simp add: jsonStringifyNumber_def)
  next
    case False
    with fin show ?thesis
      by (simp add: jsonStringifyNumber_def)
  qed
qed

lemma jsonStringifyNumber_inj:
  assumes "isFinite a" and "isFinite b" and "jsonStringifyNumber a = jsonStringifyNumber b"
  shows "strictEquals a b"
  using assms numberToString_inj [of a b]
  by (simp add: jsonStringifyNumber_def strictEquals_def)

lemma jsonStringifyNumber_numChars:
  assumes "isFinite x" and "c \<in> set (jsonStringifyNumber x)"
  shows "numChar c"
proof -
  have z: "numChar (CHR ''0'')" "numChar (CHR ''-'')"
    by (simp_all add: numChar_def isDigit_def)
  from assms(2) have c: "c \<in> set (numberToString x)"
    using assms(1) by (simp add: jsonStringifyNumber_def)
  from assms(1) show ?thesis
  proof (cases rule: finite_number_cases)
    case zero
    with c z show ?thesis by simp
  next
    case (positive ds n t f)
    with c formatDecimal_numChars [of ds c n] show ?thesis by simp
  next
    case (negative ds n t f)
    with c z formatDecimal_numChars [of ds c n] show ?thesis by auto
  qed
qed

lemma jsonStringifyNumber_nonempty: "jsonStringifyNumber x \<noteq> []"
proof (cases "isFinite x")
  case True
  then show ?thesis
  proof (cases rule: finite_number_cases)
    case zero
    with True show ?thesis by (simp add: jsonStringifyNumber_def)
  next
    case (positive ds n t f)
    with True formatDecimal_hd [of ds n] show ?thesis by (simp add: jsonStringifyNumber_def)
  next
    case (negative ds n t f)
    with True show ?thesis by (simp add: jsonStringifyNumber_def)
  qed
next
  case False
  then show ?thesis by (simp add: jsonStringifyNumber_def)
qed

lemma number_head:
  assumes "isFinite x" and "jsonStringifyNumber x @ r = c # s"
  shows "numChar c"
proof -
  obtain d ds where "jsonStringifyNumber x = d # ds"
    using jsonStringifyNumber_nonempty [of x] by (cases "jsonStringifyNumber x") auto
  with assms jsonStringifyNumber_numChars [of x d] show ?thesis by simp
qed

lemma number_head_not:
  "isFinite x \<Longrightarrow> \<not> numChar c \<Longrightarrow> jsonStringifyNumber x @ r \<noteq> c # s"
  "isFinite x \<Longrightarrow> \<not> numChar c \<Longrightarrow> c # s \<noteq> jsonStringifyNumber x @ r"
  using number_head by metis+

subsection \<open>A printed number ends where the next token begins\<close>

lemma delimited_not_numChar: "delimited r \<Longrightarrow> takeWhile numChar r = []"
  by (cases r) (auto simp: delimited_def numChar_def isDigit_def)

lemma number_cut:
  assumes "\<forall>c\<in>set xs. numChar c" and "\<forall>c\<in>set ys. numChar c"
    and "delimited r" and "delimited r'" and "xs @ r = ys @ r'"
  shows "xs = ys \<and> r = r'"
proof -
  have "takeWhile numChar (xs @ r) = xs" "takeWhile numChar (ys @ r') = ys"
    using assms(1-4) by (simp_all add: delimited_not_numChar)
  with assms(5) have "xs = ys" by simp
  with assms(5) show ?thesis by simp
qed



section \<open>Printing strings\<close>

lemma char_eq_of_code: "of_char c = (n :: nat) \<Longrightarrow> c = char_of n"
  by (metis char_of_char)

lemma hexValue_hexDigit: "d < 16 \<Longrightarrow> hexValue (hexDigit d) = d"
  by (simp add: hexValue_def hexDigit_def Let_def)

lemma escapeChar_nonempty: "escapeChar c \<noteq> []"
  by (simp add: escapeChar_def Let_def)

lemma escapeChar_not_quote: "hd (escapeChar c) \<noteq> CHR 0x22"
  by (auto simp: escapeChar_def Let_def)

lemma unescapeHead_escapeChar: "unescapeHead (escapeChar c @ X) = Some (c, X)"
proof -
  define n where "n = (of_char c :: nat)"
  have c: "c = char_of n" by (simp add: n_def)
  consider "n = 34" | "n = 92" | "n = 8" | "n = 9" | "n = 10" | "n = 12" | "n = 13"
    | "n < 32" "n \<notin> {8, 9, 10, 12, 13}" | "32 \<le> n" "n \<noteq> 34" "n \<noteq> 92"
    by fastforce
  then show ?thesis
  proof cases
    case 8
    have "16 * (n div 16) + n mod 16 = n" by simp
    moreover have "n div 16 < 16" "n mod 16 < 16" using 8(1) by simp_all
    ultimately have "char_of (16 * hexValue (hexDigit (n div 16)) + hexValue (hexDigit (n mod 16))) = c"
      using c by (simp add: hexValue_hexDigit)
    with 8 show ?thesis
      by (simp add: escapeChar_def unescapeHead_def n_def [symmetric])
  next
    case 9
    then have "c \<noteq> CHR 0x5C"
      using n_def by auto
    with 9 show ?thesis
      by (simp add: escapeChar_def unescapeHead_def n_def [symmetric])
  qed (simp_all add: escapeChar_def unescapeHead_def n_def [symmetric] c)
qed

lemma escapeChar_cut: "escapeChar c @ X = escapeChar d @ Y \<Longrightarrow> c = d \<and> X = Y"
  by (metis unescapeHead_escapeChar option.inject prod.inject)

lemma escaped_cut:
  "concat (map escapeChar s) @ CHR 0x22 # r = concat (map escapeChar t) @ CHR 0x22 # r'
     \<Longrightarrow> s = t \<and> r = r'"
proof (induction s arbitrary: t)
  case Nil
  show ?case
  proof (cases t)
    case Nil
    with Nil.prems show ?thesis by simp
  next
    case (Cons d t')
    with Nil.prems have "hd (escapeChar d @ concat (map escapeChar t') @ CHR 0x22 # r') = CHR 0x22"
      by (metis append_Nil concat.simps(1) list.map(1) list.sel(1) list.simps(9) concat.simps(2) append.assoc)
    then show ?thesis
      using escapeChar_nonempty [of d] escapeChar_not_quote [of d] by simp
  qed
next
  case (Cons c s')
  show ?case
  proof (cases t)
    case Nil
    with Cons.prems have "hd (escapeChar c @ concat (map escapeChar s') @ CHR 0x22 # r) = CHR 0x22"
      by simp
    then show ?thesis
      using escapeChar_nonempty [of c] escapeChar_not_quote [of c] by simp
  next
    case (Cons d t')
    with Cons.prems have
      "escapeChar c @ (concat (map escapeChar s') @ CHR 0x22 # r)
         = escapeChar d @ (concat (map escapeChar t') @ CHR 0x22 # r')"
      by simp
    from escapeChar_cut [OF this] Cons.IH [of t'] Cons show ?thesis
      by simp
  qed
qed

lemma quote_cut: "quoteJSONString s @ r = quoteJSONString t @ r' \<Longrightarrow> s = t \<and> r = r'"
  using escaped_cut [of s r t r'] by (simp add: quoteJSONString_def)

section \<open>Printing arrays and objects\<close>

lemma joinWith_Cons:
  "joinWith sep (x # xs) = x @ (if xs = [] then [] else sep @ joinWith sep xs)"
  by (cases xs) simp_all

lemma startsValue_not_closing:
  assumes "startsValue s" and "c = CHR '','' \<or> c = CHR '']'' \<or> c = CHR ''}''"
  shows "s @ t \<noteq> c # r" and "c # r \<noteq> s @ t"
  using assms by (cases s; auto simp: startsValue_def)+

lemma join_cut:
  assumes elem: "\<And>x y R R'. x \<in> set xs \<Longrightarrow> y \<in> set ys \<Longrightarrow> delimited R \<Longrightarrow> delimited R'
                   \<Longrightarrow> f x @ R = f y @ R' \<Longrightarrow> Q x y \<and> R = R'"
    and start: "\<And>z. z \<in> set xs \<union> set ys \<Longrightarrow> startsValue (f z)"
    and close: "cl = CHR '']'' \<or> cl = CHR ''}''"
    and eq: "joinWith '','' (map f xs) @ cl # r = joinWith '','' (map f ys) @ cl # r'"
  shows "list_all2 Q xs ys \<and> r = r'"
  using elem start eq
proof (induction xs arbitrary: ys)
  case Nil
  show ?case
  proof (cases ys)
    case Nil
    with Nil.prems(3) show ?thesis by simp
  next
    case (Cons y ys')
    have "startsValue (f y)" using Nil.prems(2) Cons by simp
    from startsValue_not_closing [OF this, of cl] close Nil.prems(3) Cons show ?thesis
      by (auto simp: joinWith_Cons split: if_splits)
  qed
next
  case (Cons x xs')
  show ?case
  proof (cases ys)
    case Nil
    have "startsValue (f x)" using Cons.prems(2) by simp
    from startsValue_not_closing [OF this, of cl] close Cons.prems(3) Nil show ?thesis
      by (auto simp: joinWith_Cons split: if_splits)
  next
    case ys: (Cons y ys')
    define Rx where "Rx = (if xs' = [] then cl # r else CHR '','' # joinWith '','' (map f xs') @ cl # r)"
    define Ry where "Ry = (if ys' = [] then cl # r' else CHR '','' # joinWith '','' (map f ys') @ cl # r')"
    have d: "delimited Rx" "delimited Ry"
      using close by (auto simp: Rx_def Ry_def delimited_def)
    have "f x @ Rx = f y @ Ry"
      using Cons.prems(3) ys by (auto simp: joinWith_Cons Rx_def Ry_def split: if_splits)
    from Cons.prems(1) [OF _ _ d this] ys have q: "Q x y" and rr: "Rx = Ry"
      by simp_all
    show ?thesis
    proof (cases "xs' = []")
      case True
      with rr close have "ys' = []" "r = r'"
        by (auto simp: Rx_def Ry_def split: if_splits)
      with True q ys show ?thesis by simp
    next
      case False
      with rr close have ne: "ys' \<noteq> []"
        and eq': "joinWith '','' (map f xs') @ cl # r = joinWith '','' (map f ys') @ cl # r'"
        by (auto simp: Rx_def Ry_def split: if_splits)
      have "list_all2 Q xs' ys' \<and> r = r'"
      proof (rule Cons.IH [OF _ _ eq'])
        fix x0 y0 R R'
        assume "x0 \<in> set xs'" "y0 \<in> set ys'" "delimited R" "delimited R'" "f x0 @ R = f y0 @ R'"
        then show "Q x0 y0 \<and> R = R'"
          using Cons.prems(1) [of x0 y0 R R'] ys by simp
      next
        fix z
        assume "z \<in> set xs' \<union> set ys'"
        then show "startsValue (f z)"
          using Cons.prems(2) [of z] ys by auto
      qed
      with q ys show ?thesis by simp
    qed
  qed
qed

section \<open>The printed form determines the value\<close>

lemma stableStringify_object:
  "stableStringify lc (JObject entries)
     = CHR ''{'' # joinWith '','' (map (renderEntry lc) (sortBy (byKey lc) entries)) @ ''}''"
  by (simp add: renderEntry_def byKey_def)

lemma not_numChar [simp]:
  "\<not> numChar CHR ''n''" "\<not> numChar CHR ''t''" "\<not> numChar CHR ''f''"
  "\<not> numChar CHR 0x22" "\<not> numChar CHR ''[''" "\<not> numChar CHR ''{''"
  by (simp_all add: numChar_def isDigit_def)

lemma numChar_not_closing:
  "numChar c \<Longrightarrow> c \<noteq> CHR '','' \<and> c \<noteq> CHR '']'' \<and> c \<noteq> CHR ''}''"
  by (auto simp: numChar_def isDigit_def)

lemma startsValue_stableStringify: "startsValue (stableStringify lc x)"
proof (cases x)
  case (JNumber n)
  show ?thesis
  proof (cases "isFinite n")
    case True
    obtain d ds where d: "jsonStringifyNumber n = d # ds"
      using jsonStringifyNumber_nonempty [of n] by (cases "jsonStringifyNumber n") auto
    then have "numChar d" using jsonStringifyNumber_numChars [OF True, of d] by simp
    with d JNumber numChar_not_closing [of d] show ?thesis
      by (simp add: startsValue_def)
  next
    case False
    with JNumber show ?thesis
      by (simp add: startsValue_def jsonStringifyNumber_def)
  qed
qed (simp_all add: startsValue_def quoteJSONString_def)

lemma startsValue_renderEntry: "startsValue (renderEntry lc e)"
  by (cases e) (simp add: renderEntry_def startsValue_def quoteJSONString_def)

lemma renderEntry_cut:
  assumes "renderEntry lc (k, v) @ R = renderEntry lc (k', v') @ R'"
  shows "k = k' \<and> stableStringify lc v @ R = stableStringify lc v' @ R'"
proof -
  from assms have "quoteJSONString k @ (CHR '':'' # stableStringify lc v @ R)
                 = quoteJSONString k' @ (CHR '':'' # stableStringify lc v' @ R')"
    by (simp add: renderEntry_def)
  from quote_cut [OF this] show ?thesis by simp
qed

lemma distinct_map_insertBy:
  "distinct (map f (insertBy cmp x ys)) \<longleftrightarrow> f x \<notin> f ` set ys \<and> distinct (map f ys)"
  by (induction ys) (auto simp: set_insertBy)

lemma distinct_map_sortBy: "distinct (map f (sortBy cmp xs)) \<longleftrightarrow> distinct (map f xs)"
  by (induction xs) (auto simp: sortBy_Nil sortBy_Cons distinct_map_insertBy set_sortBy)

lemma list_all2_entryEq_keys: "list_all2 entryEq S T \<Longrightarrow> map fst S = map fst T"
  by (induction rule: list_all2_induct) (simp_all add: entryEq_def)

lemma aligned_entries_jsonEq:
  assumes all: "list_all2 entryEq S T" and d: "distinct (map fst S)"
    and s: "(k, v) \<in> set S" and t: "(k, v') \<in> set T"
  shows "jsonEq v v'"
proof -
  from s obtain i where i: "i < length S" "S ! i = (k, v)"
    by (auto simp: in_set_conv_nth)
  from t obtain j where j: "j < length T" "T ! j = (k, v')"
    by (auto simp: in_set_conv_nth)
  have len: "length S = length T"
    using all by (rule list_all2_lengthD)
  have keys: "map fst S = map fst T"
    using all by (rule list_all2_entryEq_keys)
  have "map fst S ! i = k" using i by simp
  moreover have "map fst S ! j = k" using j len keys by simp
  ultimately have "map fst S ! i = map fst S ! j" by simp
  moreover have "i < length (map fst S)" "j < length (map fst S)"
    using i(1) j(1) len by simp_all
  ultimately have "i = j"
    using d nth_eq_iff_index_eq [of "map fst S" i j] by blast
  with all i j have "entryEq (k, v) (k, v')"
    by (metis list_all2_nthD)
  then show ?thesis by (simp add: entryEq_def)
qed

lemma sorted_entries_jsonEq:
  assumes all: "list_all2 entryEq (sortBy (byKey lc) es) (sortBy (byKey lc) fs)"
    and d: "distinct (map fst es)"
  shows "jsonEq (JObject es) (JObject fs)"
proof -
  let ?S = "sortBy (byKey lc) es" and ?T = "sortBy (byKey lc) fs"
  have "set (map fst es) = set (map fst ?S)" by (simp add: set_sortBy)
  also have "\<dots> = set (map fst ?T)" using list_all2_entryEq_keys [OF all] by simp
  also have "\<dots> = set (map fst fs)" by (simp add: set_sortBy)
  finally have keys: "set (map fst es) = set (map fst fs)" .
  have dS: "distinct (map fst ?S)" using d by (simp add: distinct_map_sortBy)
  have "jsonEq v v'" if "(k, v) \<in> set es" "(k, v') \<in> set fs" for k v v'
    using aligned_entries_jsonEq [OF all dS, of k v v'] that by (simp add: set_sortBy)
  with keys show ?thesis by auto
qed

lemma stableStringify_cut:
  assumes "finiteNumbers x" and "finiteNumbers y" and "distinctKeys x"
    and "delimited r" and "delimited r'"
    and "stableStringify lc x @ r = stableStringify lc y @ r'"
  shows "jsonEq x y \<and> r = r'"
  using assms
proof (induction x arbitrary: y r r')
  case JNull
  then show ?case
    by (cases y) (auto simp: quoteJSONString_def number_head_not split: if_splits)
next
  case (JBool b)
  then show ?case
    by (cases y) (auto simp: quoteJSONString_def number_head_not split: if_splits)
next
  case (JNumber n)
  then have n: "isFinite n"
    by simp
  show ?case
  proof (cases y)
    case (JNumber m)
    with JNumber.prems(2) have m: "isFinite m"
      by simp
    from JNumber.prems(6) \<open>y = JNumber m\<close>
    have "jsonStringifyNumber n @ r = jsonStringifyNumber m @ r'"
      by simp
    from number_cut [OF _ _ JNumber.prems(4,5) this]
    have "jsonStringifyNumber n = jsonStringifyNumber m \<and> r = r'"
      using jsonStringifyNumber_numChars [OF n] jsonStringifyNumber_numChars [OF m] by blast
    with n m \<open>y = JNumber m\<close> show ?thesis
      by (auto dest: jsonStringifyNumber_inj)
  qed (use JNumber.prems(6) n in
        \<open>auto simp: quoteJSONString_def number_head_not split: if_splits\<close>)
next
  case (JString s)
  show ?case
  proof (cases y)
    case (JString t)
    with JString.prems(6) quote_cut [of s r t r'] show ?thesis by simp
  qed (use JString.prems(2,6) in
        \<open>auto simp: quoteJSONString_def number_head_not split: if_splits\<close>)
next
  case (JArray xs)
  show ?case
  proof (cases y)
    case (JArray ys)
    from JArray.prems(6) JArray have eq:
      "joinWith '','' (map (stableStringify lc) xs) @ CHR '']'' # r
         = joinWith '','' (map (stableStringify lc) ys) @ CHR '']'' # r'"
      by simp
    have "list_all2 jsonEq xs ys \<and> r = r'"
    proof (rule join_cut [OF _ _ _ eq])
      fix x0 y0 R R'
      assume "x0 \<in> set xs" "y0 \<in> set ys" "delimited R" "delimited R'"
        "stableStringify lc x0 @ R = stableStringify lc y0 @ R'"
      then show "jsonEq x0 y0 \<and> R = R'"
        using JArray.IH [of x0 y0 R R'] JArray.prems(1,2,3) JArray by simp
    next
      fix z
      show "startsValue (stableStringify lc z)"
        by (rule startsValue_stableStringify)
    qed simp
    with JArray show ?thesis by simp
  qed (use JArray.prems(2,6) in
        \<open>auto simp: quoteJSONString_def number_head_not split: if_splits\<close>)
next
  case (JObject es)
  show ?case
  proof (cases y)
    case (JObject fs)
    let ?S = "sortBy (byKey lc) es" and ?T = "sortBy (byKey lc) fs"
    from JObject.prems(6) JObject have eq:
      "joinWith '','' (map (renderEntry lc) ?S) @ CHR ''}'' # r
         = joinWith '','' (map (renderEntry lc) ?T) @ CHR ''}'' # r'"
      by (simp add: stableStringify_object del: stableStringify.simps)
    have "list_all2 entryEq ?S ?T \<and> r = r'"
    proof (rule join_cut [OF _ _ _ eq])
      fix e f R R'
      assume e: "e \<in> set ?S" and f: "f \<in> set ?T" and d: "delimited R" "delimited R'"
        and cut: "renderEntry lc e @ R = renderEntry lc f @ R'"
      obtain k v k' v' where kv: "e = (k, v)" "f = (k', v')"
        by (cases e, cases f) auto
      from e f kv have mem: "(k, v) \<in> set es" "(k', v') \<in> set fs"
        by (simp_all add: set_sortBy)
      from renderEntry_cut [OF cut [unfolded kv]]
      have k: "k = k'" and rest: "stableStringify lc v @ R = stableStringify lc v' @ R'"
        by simp_all
      have "finiteNumbers v" "distinctKeys v" "finiteNumbers v'"
        using mem JObject.prems(1,2,3) JObject by auto
      with JObject.IH [of "(k, v)" v v' R R'] mem(1) d rest have "jsonEq v v' \<and> R = R'"
        by simp
      with k kv show "entryEq e f \<and> R = R'"
        by (simp add: entryEq_def)
    next
      fix z
      show "startsValue (renderEntry lc z)"
        by (rule startsValue_renderEntry)
    qed simp
    moreover have "distinct (map fst es)"
      using JObject.prems(3) by simp
    ultimately show ?thesis
      using sorted_entries_jsonEq [of lc es fs] JObject by simp
  qed (use JObject.prems(2,6) in
        \<open>auto simp: quoteJSONString_def number_head_not split: if_splits\<close>)
qed

section \<open>Equal values print alike\<close>

lemma sorted_wrt_unique:
  assumes anti: "\<And>a b. a \<in> set xs \<Longrightarrow> b \<in> set xs \<Longrightarrow> R a b \<Longrightarrow> R b a \<Longrightarrow> a = b"
    and "sorted_wrt R xs" and "sorted_wrt R ys"
    and "distinct xs" and "distinct ys" and "set xs = set ys"
  shows "xs = ys"
  using assms
proof (induction xs arbitrary: ys)
  case Nil
  then show ?case by simp
next
  case (Cons x xs')
  then obtain y ys' where ys: "ys = y # ys'"
    by (cases ys) auto
  have xy: "x = y"
  proof (rule ccontr)
    assume ne: "x \<noteq> y"
    with Cons.prems(6) ys have "x \<in> set ys'" "y \<in> set xs'"
      by auto
    with Cons.prems(2,3) ys have "R y x" "R x y"
      by auto
    with Cons.prems(1) [of x y] \<open>y \<in> set xs'\<close> ne show False
      by auto
  qed
  with Cons.prems(4,5,6) ys have "set xs' = set ys'"
    by auto
  with Cons.IH [of ys'] Cons.prems ys xy show ?case
    by auto
qed

lemma list_all2_map_eq:
  assumes "list_all2 Q xs ys"
    and "\<And>x y. x \<in> set xs \<Longrightarrow> y \<in> set ys \<Longrightarrow> Q x y \<Longrightarrow> f x = f y"
  shows "map f xs = map f ys"
  using assms by (induction rule: list_all2_induct) auto

lemma strictOn_mono: "strictOn lc S \<Longrightarrow> T \<subseteq> S \<Longrightarrow> strictOn lc T"
  unfolding strictOn_def by (meson subsetD)

lemma keysOf_array: "x \<in> set xs \<Longrightarrow> set (keysOf x) \<subseteq> set (keysOf (JArray xs))"
  by auto

lemma keysOf_object_value: "(k, v) \<in> set es \<Longrightarrow> set (keysOf v) \<subseteq> set (keysOf (JObject es))"
  by force

lemma sorted_keys:
  assumes "strictOn lc (fst ` set es)"
  shows "sorted_wrt (\<lambda>a b. lc a b \<le> 0) (map fst (sortBy (byKey lc) es))"
proof -
  have "sorted_wrt (\<lambda>l r. byKey lc l r \<le> 0) (sortBy (byKey lc) es)"
  proof (rule sorted_sortBy [where S = "set es"])
    show "\<forall>a\<in>set es. \<forall>b\<in>set es. byKey lc a b \<le> 0 \<or> byKey lc b a \<le> 0"
      using assms unfolding strictOn_def byKey_def by (meson imageI)
    show "\<forall>a\<in>set es. \<forall>b\<in>set es. \<forall>c\<in>set es.
            byKey lc a b \<le> 0 \<longrightarrow> byKey lc b c \<le> 0 \<longrightarrow> byKey lc a c \<le> 0"
      using assms unfolding strictOn_def byKey_def by (meson imageI)
  qed simp
  then show ?thesis
    by (simp add: sorted_wrt_map byKey_def)
qed

lemma sorted_keys_equal:
  assumes strict: "strictOn lc (fst ` set es \<union> fst ` set fs)"
    and d: "distinct (map fst es)" "distinct (map fst fs)"
    and keys: "set (map fst es) = set (map fst fs)"
  shows "map fst (sortBy (byKey lc) es) = map fst (sortBy (byKey lc) fs)"
proof (rule sorted_wrt_unique [where R = "\<lambda>a b. lc a b \<le> 0"])
  fix a b
  assume "a \<in> set (map fst (sortBy (byKey lc) es))" "b \<in> set (map fst (sortBy (byKey lc) es))"
    "lc a b \<le> 0" "lc b a \<le> 0"
  then have "a \<in> fst ` set es \<union> fst ` set fs" "b \<in> fst ` set es \<union> fst ` set fs"
    "lc a b \<le> 0 \<and> lc b a \<le> 0"
    by (simp_all add: set_sortBy)
  with strict show "a = b"
    unfolding strictOn_def by blast
next
  show "sorted_wrt (\<lambda>a b. lc a b \<le> 0) (map fst (sortBy (byKey lc) es))"
    by (rule sorted_keys) (rule strictOn_mono [OF strict], simp)
  show "sorted_wrt (\<lambda>a b. lc a b \<le> 0) (map fst (sortBy (byKey lc) fs))"
    by (rule sorted_keys) (rule strictOn_mono [OF strict], simp)
  show "distinct (map fst (sortBy (byKey lc) es))" "distinct (map fst (sortBy (byKey lc) fs))"
    using d by (simp_all add: distinct_map_sortBy)
  show "set (map fst (sortBy (byKey lc) es)) = set (map fst (sortBy (byKey lc) fs))"
    using keys by (simp add: set_sortBy)
qed

lemma stableStringify_cong:
  assumes "jsonEq x y" and "distinctKeys x" and "distinctKeys y"
    and "strictOn lc (set (keysOf x) \<union> set (keysOf y))"
  shows "stableStringify lc x = stableStringify lc y"
  using assms
proof (induction x arbitrary: y)
  case (JArray xs)
  then obtain ys where y: "y = JArray ys"
    by (cases y) auto
  have "map (stableStringify lc) xs = map (stableStringify lc) ys"
  proof (rule list_all2_map_eq [where Q = jsonEq])
    show "list_all2 jsonEq xs ys"
      using JArray.prems(1) y by simp
  next
    fix x0 y0
    assume m: "x0 \<in> set xs" "y0 \<in> set ys" and e: "jsonEq x0 y0"
    have "set (keysOf x0) \<union> set (keysOf y0) \<subseteq> set (keysOf (JArray xs)) \<union> set (keysOf y)"
      using keysOf_array [OF m(1)] keysOf_array [OF m(2)] y by blast
    from strictOn_mono [OF JArray.prems(4) this] m e JArray.prems(2,3) y
    show "stableStringify lc x0 = stableStringify lc y0"
      using JArray.IH [of x0 y0] by simp
  qed
  with y show ?case by simp
next
  case (JObject es)
  then obtain fs where y: "y = JObject fs"
    by (cases y) auto
  let ?S = "sortBy (byKey lc) es" and ?T = "sortBy (byKey lc) fs"
  have keyset: "set (map fst es) = set (map fst fs)"
    and vals: "\<And>k v v'. (k, v) \<in> set es \<Longrightarrow> (k, v') \<in> set fs \<Longrightarrow> jsonEq v v'"
    using JObject.prems(1) y by auto
  have d: "distinct (map fst es)" "distinct (map fst fs)"
    using JObject.prems(2,3) y by simp_all
  have "fst ` set es \<union> fst ` set fs \<subseteq> set (keysOf (JObject es)) \<union> set (keysOf y)"
    using y by auto
  from strictOn_mono [OF JObject.prems(4) this]
  have keys: "map fst ?S = map fst ?T"
    by (rule sorted_keys_equal [OF _ d keyset])
  then have len: "length ?S = length ?T"
    by (metis length_map)
  have "map (renderEntry lc) ?S = map (renderEntry lc) ?T"
  proof (rule nth_equalityI)
    show "length (map (renderEntry lc) ?S) = length (map (renderEntry lc) ?T)"
      using len by simp
  next
    fix i
    assume "i < length (map (renderEntry lc) ?S)"
    then have i: "i < length ?S" "i < length ?T"
      using len by simp_all
    obtain k v where e: "?S ! i = (k, v)" by (cases "?S ! i")
    obtain k' v' where f: "?T ! i = (k', v')" by (cases "?T ! i")
    have "map fst ?S ! i = map fst ?T ! i" using keys by simp
    with i e f have k: "k' = k" by simp
    have mem: "(k, v) \<in> set es" "(k, v') \<in> set fs"
      using i e f k nth_mem [of i ?S] nth_mem [of i ?T] by (simp_all add: set_sortBy)
    have sub: "set (keysOf v) \<union> set (keysOf v') \<subseteq> set (keysOf (JObject es)) \<union> set (keysOf y)"
      using keysOf_object_value [OF mem(1)] keysOf_object_value [OF mem(2)] y by blast
    have "distinctKeys v" "distinctKeys v'"
      using mem JObject.prems(2,3) y by auto
    with JObject.IH [of "(k, v)" v v'] mem vals [OF mem] strictOn_mono [OF JObject.prems(4) sub]
    have "stableStringify lc v = stableStringify lc v'"
      by simp
    with i e f k show "map (renderEntry lc) ?S ! i = map (renderEntry lc) ?T ! i"
      by (simp add: renderEntry_def)
  qed
  with y show ?case
    by (simp add: stableStringify_object del: stableStringify.simps)
next
  case JNull
  then show ?case by (cases y) simp_all
next
  case (JBool b)
  then show ?case by (cases y) simp_all
next
  case (JNumber n)
  then show ?case by (cases y) (simp_all add: strictEquals_print)
next
  case (JString s)
  then show ?case by (cases y) simp_all
qed

lemma requestMaterial_eq_iff:
  "requestMaterial lc m p x = requestMaterial lc m p y
     \<longleftrightarrow> stableStringify lc x = stableStringify lc y"
  by (simp add: requestMaterial_def)

section \<open>The code-point order is strict\<close>

lemma lexCompare_flip: "lexCompare bs as = - lexCompare as bs"
  by (induction as bs rule: lexCompare.induct) auto

lemma lexCompare_trans:
  "lexCompare as bs \<le> 0 \<Longrightarrow> lexCompare bs cs \<le> 0 \<Longrightarrow> lexCompare as cs \<le> 0"
proof (induction as arbitrary: bs cs)
  case Nil
  then show ?case by (cases cs) simp_all
next
  case (Cons a as)
  then obtain b bs' where bs: "bs = b # bs'"
    by (cases bs) auto
  with Cons.prems obtain c cs' where cs: "cs = c # cs'"
    by (cases cs) auto
  from Cons.prems bs cs have "a \<le> b" "b \<le> c"
    by (auto split: if_splits)
  show ?case
  proof (cases "a < c")
    case True
    with cs show ?thesis by simp
  next
    case False
    with \<open>a \<le> b\<close> \<open>b \<le> c\<close> have eq: "a = b" "b = c" by simp_all
    with Cons.prems bs cs have "lexCompare as bs' \<le> 0" "lexCompare bs' cs' \<le> 0"
      by simp_all
    from Cons.IH [OF this] eq cs show ?thesis by simp
  qed
qed

lemma strictOn_codePointCompare: "strictOn codePointCompare S"
proof -
  have total: "codePointCompare a b \<le> 0 \<or> codePointCompare b a \<le> 0" for a b
    using lexCompare_flip [of "map of_char b" "map of_char a"]
    by (simp add: codePointCompare_def) linarith
  have anti: "a = b" if "codePointCompare a b \<le> 0" "codePointCompare b a \<le> 0" for a b
  proof -
    have "codePointCompare b a = - codePointCompare a b"
      unfolding codePointCompare_def by (rule lexCompare_flip)
    with that have "codePointCompare a b = 0" by simp
    then show ?thesis by (rule codePointCompare_eq_0)
  qed
  have trans: "codePointCompare a c \<le> 0"
    if "codePointCompare a b \<le> 0" "codePointCompare b c \<le> 0" for a b c
    using that lexCompare_trans by (simp add: codePointCompare_def)
  show ?thesis
    unfolding strictOn_def using total anti trans by blast
qed

section \<open>Claims about the fingerprint\<close>

text \<open>
  Claim C4, as the code has it. Take two bodies whose numbers are finite and whose
  object keys the host collation orders strictly (the keys of an object are distinct in
  any case). Then the strings that are hashed for them, under the same method and path,
  are equal if and only if the bodies are structurally equal; in particular the order
  of the keys within objects does not matter. The fingerprints of structurally equal
  bodies are equal, and where the digest does not collide on the two strings, equal
  fingerprints mean structurally equal bodies.
\<close>

theorem fingerprint_structural_equality:
  assumes "distinctKeys x" and "distinctKeys y"
    and "finiteNumbers x" and "finiteNumbers y"
    and "strictOn lc (set (keysOf x) \<union> set (keysOf y))"
  shows "(requestMaterial lc m p x = requestMaterial lc m p y \<longleftrightarrow> jsonEq x y)
       \<and> (jsonEq x y \<longrightarrow>
            buildRequestFingerprint sha256hex lc m p x
              = buildRequestFingerprint sha256hex lc m p y)
       \<and> (inj_on sha256hex {requestMaterial lc m p x, requestMaterial lc m p y} \<longrightarrow>
            (buildRequestFingerprint sha256hex lc m p x
               = buildRequestFingerprint sha256hex lc m p y
             \<longleftrightarrow> jsonEq x y))"
proof -
  have same: "stableStringify lc x = stableStringify lc y" if "jsonEq x y"
    using stableStringify_cong [OF that assms(1,2,5)] .
  have equal: "jsonEq x y" if "stableStringify lc x = stableStringify lc y"
  proof -
    have "delimited []" by (simp add: delimited_def)
    from stableStringify_cut [OF assms(3,4,1) this this, of lc] that
    show ?thesis by simp
  qed
  have material: "requestMaterial lc m p x = requestMaterial lc m p y \<longleftrightarrow> jsonEq x y"
    using same equal by (auto simp: requestMaterial_eq_iff)
  have forward: "buildRequestFingerprint sha256hex lc m p x
                   = buildRequestFingerprint sha256hex lc m p y"
    if "jsonEq x y"
    using that material by (simp add: buildRequestFingerprint_def)
  have backward: "jsonEq x y"
    if inj: "inj_on sha256hex {requestMaterial lc m p x, requestMaterial lc m p y}"
      and eq: "buildRequestFingerprint sha256hex lc m p x
                 = buildRequestFingerprint sha256hex lc m p y"
  proof -
    from eq have "sha256hex (requestMaterial lc m p x) = sha256hex (requestMaterial lc m p y)"
      by (simp add: buildRequestFingerprint_def)
    from inj_onD [OF inj this] have "requestMaterial lc m p x = requestMaterial lc m p y"
      by simp
    with material show ?thesis by simp
  qed
  from material forward backward show ?thesis
    by blast
qed

text \<open>
  Two bodies with a fraction, a number in exponent form and the same integer written as
  \<open>100\<close> and as \<open>1e2\<close>, their keys in different orders.
\<close>

theorem fingerprint_structural_equality_witness:
  "requestMaterial codePointCompare ''post'' ''/wallet/topup''
     (JObject [(''amount'', JNumber (Finite 100 0)), (''rate'', JNumber (Finite 15 (- 1))),
               (''limit'', JNumber (Finite 1 21))])
   = requestMaterial codePointCompare ''post'' ''/wallet/topup''
       (JObject [(''limit'', JNumber (Finite 1 21)), (''amount'', JNumber (Finite 1 2)),
                 (''rate'', JNumber (Finite 15 (- 1)))])"
proof -
  let ?x = "JObject [(''amount'', JNumber (Finite 100 0)), (''rate'', JNumber (Finite 15 (- 1))),
               (''limit'', JNumber (Finite 1 21))]"
  let ?y = "JObject [(''limit'', JNumber (Finite 1 21)), (''amount'', JNumber (Finite 1 2)),
                 (''rate'', JNumber (Finite 15 (- 1)))]"
  have d: "distinctKeys ?x" "distinctKeys ?y"
    by simp_all
  have n: "finiteNumbers ?x" "finiteNumbers ?y"
    by (simp_all add: isFinite_def)
  have s: "strictOn codePointCompare (set (keysOf ?x) \<union> set (keysOf ?y))"
    by (rule strictOn_codePointCompare)
  have "strictEquals (Finite 100 0) (Finite 1 2)"
    by code_simp
  then have e: "jsonEq ?x ?y"
    by (auto simp: strictEquals_def)
  from fingerprint_structural_equality [OF d n s] e show ?thesis
    by simp
qed

text \<open>
  Claim C4 as written, for all bodies, fails on a number that is not finite:
  \<open>JSON.parse\<close> reads \<open>1e999\<close> as \<open>Infinity\<close>, which \<open>JSON.stringify\<close> prints as
  \<open>null\<close>, so the body \<open>{"amount":1e999}\<close> has the fingerprint of \<open>{"amount":null}\<close>.
\<close>

theorem fingerprint_collision_on_overflow:
  "requestMaterial localeCompareAscii ''POST'' ''/wallet/topup''
       (JObject [(''amount'', JNumber Infinity)])
     = requestMaterial localeCompareAscii ''POST'' ''/wallet/topup''
         (JObject [(''amount'', JNull)])
   \<and> \<not> jsonEq (JObject [(''amount'', JNumber Infinity)]) (JObject [(''amount'', JNull)])"
  by (simp add: requestMaterial_def sortBy_def jsonStringifyNumber_def isFinite_def)

text \<open>
  It fails on keys that the collation ties, too. The sort is stable, so two different
  keys between which \<open>localeCompare\<close> answers 0 stay in the order of insertion, and that
  order shows in the string that is hashed. Under the root collation the keys \<open>userId\<close>
  and \<open>user\u00adId\<close>, which differ by a soft hyphen, are such a pair: the bodies
  \<open>{"userId":"alice","user\u00adId":"bob"}\<close> and \<open>{"user\u00adId":"bob","userId":"alice"}\<close>
  are structurally equal and are hashed from different strings.
\<close>

lemma fingerprint_depends_on_order_of_tied_keys:
  "localeCompareSoftHyphen ''userId'' softKey = 0
   \<and> localeCompareSoftHyphen softKey ''userId'' = 0
   \<and> ''userId'' \<noteq> softKey
   \<and> jsonEq tiedBody tiedBodyReordered
   \<and> requestMaterial localeCompareSoftHyphen ''POST'' ''/wallet/topup'' tiedBody
       \<noteq> requestMaterial localeCompareSoftHyphen ''POST'' ''/wallet/topup'' tiedBodyReordered"
proof -
  have "localeCompareSoftHyphen ''userId'' softKey = 0"
    "localeCompareSoftHyphen softKey ''userId'' = 0"
    by code_simp+
  moreover have "''userId'' \<noteq> softKey"
    by (simp add: softKey_def)
  moreover have "jsonEq tiedBody tiedBodyReordered"
    by (auto simp: tiedBody_def tiedBodyReordered_def softKey_def)
  moreover have "requestMaterial localeCompareSoftHyphen ''POST'' ''/wallet/topup'' tiedBody
       \<noteq> requestMaterial localeCompareSoftHyphen ''POST'' ''/wallet/topup'' tiedBodyReordered"
    by code_simp
  ultimately show ?thesis
    by blast
qed

text \<open>
  The same holds for every comparator and every pair of keys it ties: the order of
  insertion shows.
\<close>

lemma stableStringify_tie_keeps_insertion_order:
  assumes "a \<noteq> b" and "lc a b = 0" and "lc b a = 0"
  shows "stableStringify lc (JObject [(a, JNull), (b, JBool True)])
       \<noteq> stableStringify lc (JObject [(b, JBool True), (a, JNull)])"
proof
  assume "stableStringify lc (JObject [(a, JNull), (b, JBool True)])
        = stableStringify lc (JObject [(b, JBool True), (a, JNull)])"
  with assms(2,3) have
    "quoteJSONString a @ ('':null,'' @ quoteJSONString b @ '':true}'')
       = quoteJSONString b @ ('':true,'' @ quoteJSONString a @ '':null}'')"
    by (simp add: sortBy_def)
  from quote_cut [OF this] assms(1) show False
    by simp
qed

section \<open>The encoding of the amount\<close>

lemma insertBy_map_keys:
  assumes "\<And>e. fst (g e) = fst e"
  shows "insertBy (byKey lc) (g e) (map g es) = map g (insertBy (byKey lc) e es)"
  by (induction es) (simp_all add: byKey_def assms)

lemma sortBy_map_keys:
  assumes "\<And>e. fst (g e) = fst e"
  shows "sortBy (byKey lc) (map g es) = map g (sortBy (byKey lc) es)"
  by (induction es) (simp_all add: sortBy_Nil sortBy_Cons insertBy_map_keys [OF assms])

lemma joinWith_head:
  "joinWith sep (e # Q) = e @ concat (map (\<lambda>q. sep @ q) Q)"
  by (induction Q arbitrary: e) simp_all

lemma joinWith_middle:
  "joinWith sep (P @ e # Q)
     = concat (map (\<lambda>p. p @ sep) P) @ e @ concat (map (\<lambda>q. sep @ q) Q)"
proof (induction P)
  case Nil
  show ?case by (simp add: joinWith_head)
next
  case (Cons p P')
  then show ?case by (simp add: joinWith_Cons)
qed

lemma stableStringify_amount_encoding:
  assumes once: "''amount'' \<notin> fst ` set (before @ after)"
  shows "stableStringify lc (JObject (before @ [(''amount'', JNumber (Finite 1 0))] @ after))
       \<noteq> stableStringify lc (JObject (before @ [(''amount'', JString ''1'')] @ after))"
proof -
  let ?n = "(''amount'', JNumber (Finite 1 0))" and ?s = "(''amount'', JString ''1'')"
  let ?es = "before @ [?n] @ after"
  let ?S = "sortBy (byKey lc) ?es"
  have keep: "map amountAsString xs = xs" if "''amount'' \<notin> fst ` set xs" for xs
    using that by (induction xs) (auto simp: amountAsString_def)
  have "map amountAsString ?es = before @ [?s] @ after"
    using once keep [of before] keep [of after] by (simp add: amountAsString_def image_Un)
  then have sorted_s: "sortBy (byKey lc) (before @ [?s] @ after) = map amountAsString ?S"
    using sortBy_map_keys [of amountAsString lc ?es]
    by (simp add: amountAsString_def split_beta)
  have "?n \<in> set ?S" by (simp add: set_sortBy)
  then obtain A B where split: "?S = A @ ?n # B"
    by (auto simp: in_set_conv_decomp)
  have others: "''amount'' \<notin> fst ` set A" "''amount'' \<notin> fst ` set B"
  proof -
    have "length (filter (\<lambda>e. fst e = ''amount'') ?S) = length (filter (\<lambda>e. fst e = ''amount'') ?es)"
    proof -
      have "length (filter P (insertBy cmp x ys)) = length (filter P (x # ys))"
        for P :: "string \<times> json \<Rightarrow> bool" and cmp x ys
        by (induction ys) auto
      then have "length (filter P (sortBy cmp xs)) = length (filter P xs)"
        for P :: "string \<times> json \<Rightarrow> bool" and cmp xs
        by (induction xs) (simp_all add: sortBy_Nil sortBy_Cons)
      then show ?thesis .
    qed
    also have "\<dots> = 1"
    proof -
      have "filter (\<lambda>e. fst e = ''amount'') xs = []" if "''amount'' \<notin> fst ` set xs"
        for xs :: "(string \<times> json) list"
        using that by (force simp: filter_empty_conv)
      with once show ?thesis by (simp add: image_Un)
    qed
    finally have "length (filter (\<lambda>e. fst e = ''amount'') ?S) = 1" .
    then have "length (filter (\<lambda>e. fst e = ''amount'') A)
                  + length (filter (\<lambda>e. fst e = ''amount'') B) = 0"
      unfolding split by simp
    then have "filter (\<lambda>e. fst e = ''amount'') A = []" "filter (\<lambda>e. fst e = ''amount'') B = []"
      by simp_all
    then show "''amount'' \<notin> fst ` set A" "''amount'' \<notin> fst ` set B"
      by (auto simp: filter_empty_conv)
  qed
  have mapped: "map amountAsString ?S = A @ ?s # B"
    using split keep [OF others(1)] keep [OF others(2)] by (simp add: amountAsString_def)
  have differ: "renderEntry lc ?n \<noteq> renderEntry lc ?s"
  proof -
    have "jsonStringifyNumber (Finite 1 0) = ''1''" by code_simp
    then show ?thesis
      by (simp add: renderEntry_def quoteJSONString_def)
  qed
  have "joinWith '','' (map (renderEntry lc) (A @ ?n # B))
          \<noteq> joinWith '','' (map (renderEntry lc) (A @ ?s # B))"
    using differ by (simp add: joinWith_middle)
  then show ?thesis
    using split mapped sorted_s
    by (simp add: stableStringify_object del: stableStringify.simps)
qed


section \<open>The middleware\<close>

lemma requireIdempotency_passes:
  assumes "req_idempotencyKey request = Some idempotencyKey" and "idempotencyKey \<noteq> []"
    and "idempotencyCache_get world idempotencyKey = None"
  shows "requireIdempotency sha256hex lc world (request\<lparr>req_body := Some (JObject es)\<rparr>)
           = Inr (Next idempotencyKey
               (buildRequestFingerprint sha256hex lc (req_method request)
                  (getPathWithoutQuery request) (JObject es)))"
  using assms by (simp add: requireIdempotency_def getPathWithoutQuery_def)

lemma fingerprint_differs:
  assumes material: "requestMaterial lc m p x \<noteq> requestMaterial lc m p y"
    and inj: "inj_on sha256hex {requestMaterial lc m p x, requestMaterial lc m p y}"
  shows "buildRequestFingerprint sha256hex lc m p x \<noteq> buildRequestFingerprint sha256hex lc m p y"
proof
  assume "buildRequestFingerprint sha256hex lc m p x = buildRequestFingerprint sha256hex lc m p y"
  then have "sha256hex (requestMaterial lc m p x) = sha256hex (requestMaterial lc m p y)"
    by (simp only: buildRequestFingerprint_def)
  from inj_onD [OF inj this] material show False
    by simp
qed

text \<open>
  Claim C9. \<open>requireIdempotency\<close> computes the fingerprint from the decoded body as it
  arrives, before the route's schema has parsed it. Two bodies that differ only in the
  amount, the number 1 in one and the string \<open>1\<close> in the other, give different strings
  to hash for every method and path, and so different fingerprints wherever the digest
  does not collide on these two strings.
\<close>

theorem fingerprint_keeps_amount_encoding:
  assumes "req_idempotencyKey request = Some idempotencyKey" and "idempotencyKey \<noteq> []"
    and "idempotencyCache_get world idempotencyKey = None"
    and "''amount'' \<notin> fst ` set (before @ after)"
  shows "requireIdempotency sha256hex lc world
           (request\<lparr>req_body := Some (JObject (before @ [(''amount'', JNumber (Finite 1 0))] @ after))\<rparr>)
         = Inr (Next idempotencyKey
             (buildRequestFingerprint sha256hex lc (req_method request) (getPathWithoutQuery request)
                (JObject (before @ [(''amount'', JNumber (Finite 1 0))] @ after))))
       \<and> requireIdempotency sha256hex lc world
           (request\<lparr>req_body := Some (JObject (before @ [(''amount'', JString ''1'')] @ after))\<rparr>)
         = Inr (Next idempotencyKey
             (buildRequestFingerprint sha256hex lc (req_method request) (getPathWithoutQuery request)
                (JObject (before @ [(''amount'', JString ''1'')] @ after))))
       \<and> requestMaterial lc m p (JObject (before @ [(''amount'', JNumber (Finite 1 0))] @ after))
           \<noteq> requestMaterial lc m p (JObject (before @ [(''amount'', JString ''1'')] @ after))
       \<and> (inj_on sha256hex
             {requestMaterial lc m p (JObject (before @ [(''amount'', JNumber (Finite 1 0))] @ after)),
              requestMaterial lc m p (JObject (before @ [(''amount'', JString ''1'')] @ after))}
           \<longrightarrow> buildRequestFingerprint sha256hex lc m p
                 (JObject (before @ [(''amount'', JNumber (Finite 1 0))] @ after))
               \<noteq> buildRequestFingerprint sha256hex lc m p
                   (JObject (before @ [(''amount'', JString ''1'')] @ after)))"
proof (intro conjI impI)
  let ?n = "JObject (before @ [(''amount'', JNumber (Finite 1 0))] @ after)"
  let ?s = "JObject (before @ [(''amount'', JString ''1'')] @ after)"
  show "requireIdempotency sha256hex lc world (request\<lparr>req_body := Some ?n\<rparr>)
          = Inr (Next idempotencyKey
              (buildRequestFingerprint sha256hex lc (req_method request)
                 (getPathWithoutQuery request) ?n))"
    using assms(1,2,3) by (rule requireIdempotency_passes)
  show "requireIdempotency sha256hex lc world (request\<lparr>req_body := Some ?s\<rparr>)
          = Inr (Next idempotencyKey
              (buildRequestFingerprint sha256hex lc (req_method request)
                 (getPathWithoutQuery request) ?s))"
    using assms(1,2,3) by (rule requireIdempotency_passes)
  show material: "requestMaterial lc m p ?n \<noteq> requestMaterial lc m p ?s"
    using stableStringify_amount_encoding [OF assms(4), of lc]
    by (simp only: requestMaterial_eq_iff not_False_eq_True)
  show "buildRequestFingerprint sha256hex lc m p ?n \<noteq> buildRequestFingerprint sha256hex lc m p ?s"
    if "inj_on sha256hex {requestMaterial lc m p ?n, requestMaterial lc m p ?s}"
    using material that by (rule fingerprint_differs)
qed

theorem fingerprint_keeps_amount_encoding_witness:
  "requireIdempotency (\<lambda>material. material) localeCompareAscii exampleWorld
     (exampleHttpRequest\<lparr>req_body := Some (JObject
        [(''userId'', JString ''alice''), (''amount'', JNumber (Finite 1 0)),
         (''assetCode'', JString ''gold_coins'')])\<rparr>)
   \<noteq> requireIdempotency (\<lambda>material. material) localeCompareAscii exampleWorld
     (exampleHttpRequest\<lparr>req_body := Some (JObject
        [(''userId'', JString ''alice''), (''amount'', JString ''1''),
         (''assetCode'', JString ''gold_coins'')])\<rparr>)"
proof -
  let ?before = "[(''userId'', JString ''alice'')]"
  let ?after = "[(''assetCode'', JString ''gold_coins'')]"
  have h1: "req_idempotencyKey exampleHttpRequest = Some ''key-1''"
    by (simp add: exampleHttpRequest_def)
  have h2: "''key-1'' \<noteq> []"
    by simp
  have h3: "idempotencyCache_get exampleWorld ''key-1'' = None"
    by (simp add: idempotencyCache_get_def exampleWorld_def)
  have h4: "''amount'' \<notin> fst ` set (?before @ ?after)"
    by simp
  have inj: "inj_on (\<lambda>material :: string. material) A" for A
    by (simp add: inj_on_def)
  note claim = fingerprint_keeps_amount_encoding [OF h1 h2 h3 h4,
      of "\<lambda>material. material" localeCompareAscii
         "req_method exampleHttpRequest" "getPathWithoutQuery exampleHttpRequest"]
  let ?fpn = "buildRequestFingerprint (\<lambda>material. material) localeCompareAscii
        (req_method exampleHttpRequest) (getPathWithoutQuery exampleHttpRequest)
        (JObject (?before @ [(''amount'', JNumber (Finite 1 0))] @ ?after))"
  let ?fps = "buildRequestFingerprint (\<lambda>material. material) localeCompareAscii
        (req_method exampleHttpRequest) (getPathWithoutQuery exampleHttpRequest)
        (JObject (?before @ [(''amount'', JString ''1'')] @ ?after))"
  from claim inj have differ: "?fpn \<noteq> ?fps"
    by blast
  from claim have n: "requireIdempotency (\<lambda>material. material) localeCompareAscii exampleWorld
       (exampleHttpRequest\<lparr>req_body := Some (JObject
          (?before @ [(''amount'', JNumber (Finite 1 0))] @ ?after))\<rparr>) = Inr (Next ''key-1'' ?fpn)"
    by (rule conjunct1)
  from claim have s: "requireIdempotency (\<lambda>material. material) localeCompareAscii exampleWorld
       (exampleHttpRequest\<lparr>req_body := Some (JObject
          (?before @ [(''amount'', JString ''1'')] @ ?after))\<rparr>) = Inr (Next ''key-1'' ?fps)"
    by (rule conjunct1 [OF conjunct2])
  have "Inr (Next ''key-1'' ?fpn) \<noteq> (Inr (Next ''key-1'' ?fps) :: error + GateResult)"
    using differ by (simp only: sum.inject GateResult.inject simp_thms not_False_eq_True)
  then show ?thesis
    using n s by (simp only: append.simps not_False_eq_True)
qed

end
